theory Spec2Isabelle
  imports Main "HOL-Library.Sublist"
begin

section \<open>Characters and the standard-library routines the server calls\<close>

text \<open>
  A \<open>std::string\<close> is a sequence of bytes: a \<^typ>\<open>string\<close>. The control characters
  the parser tests for are named here.
\<close>

abbreviation CR :: char where "CR \<equiv> CHR 0x0D"
abbreviation LF :: char where "LF \<equiv> CHR 0x0A"
abbreviation TAB :: char where "TAB \<equiv> CHR 0x09"
abbreviation VT :: char where "VT \<equiv> CHR 0x0B"
abbreviation FF :: char where "FF \<equiv> CHR 0x0C"
abbreviation NUL :: char where "NUL \<equiv> CHR 0x00"
abbreviation CRLF :: string where "CRLF \<equiv> [CR, LF]"

text \<open>\<open>std::isspace\<close> in the classic locale, as \<open>operator>>\<close> and \<open>strtol\<close> use it.\<close>

definition isspace :: "char \<Rightarrow> bool" where
  "isspace c \<longleftrightarrow> c = CHR '' '' \<or> c = TAB \<or> c = LF \<or> c = VT \<or> c = FF \<or> c = CR"

definition isdigit :: "char \<Rightarrow> bool" where
  "isdigit c \<longleftrightarrow> c \<in> set ''0123456789''"

definition digit_val :: "char \<Rightarrow> nat" where
  "digit_val c = of_char c - 48"

definition digit_char :: "nat \<Rightarrow> char" where
  "digit_char d = ''0123456789'' ! d"

text \<open>The exceptions that can leave \<open>HTTPRequest::parse\<close> or a handler.\<close>

datatype exception =
    InvalidArgument   \<comment> \<open>\<open>std::invalid_argument\<close>: \<open>std::stoi\<close> found no digits\<close>
  | OutOfRange        \<comment> \<open>\<open>std::out_of_range\<close>: \<open>std::stoi\<close>, value outside \<open>int\<close>\<close>
  | LengthError       \<comment> \<open>\<open>std::length_error\<close>: a \<open>std::vector\<close> larger than \<open>max_size()\<close>\<close>
  | RuntimeError string  \<comment> \<open>\<open>std::runtime_error\<close> with its message\<close>

text \<open>
  \<open>std::stoi(str)\<close>: \<open>strtol\<close> in base 10 skips leading white space, takes an
  optional sign and then the longest run of digits, ignoring what follows. No digit raises
  \<open>std::invalid_argument\<close>; a value outside the 32-bit \<open>int\<close> raises
  \<open>std::out_of_range\<close>.
\<close>

definition digits_value :: "string \<Rightarrow> nat" where
  "digits_value ds = foldl (\<lambda>a c. 10 * a + digit_val c) 0 ds"

definition stoi :: "string \<Rightarrow> exception + int" where
  "stoi str =
     (let s1 = dropWhile isspace str;
          neg = (s1 \<noteq> [] \<and> hd s1 = CHR ''-'');
          s2 = (if s1 \<noteq> [] \<and> (hd s1 = CHR ''-'' \<or> hd s1 = CHR ''+'') then tl s1 else s1);
          ds = takeWhile isdigit s2
      in if ds = [] then Inl InvalidArgument
         else let v = (if neg then - int (digits_value ds) else int (digits_value ds))
              in if v < - 2147483648 \<or> 2147483647 < v then Inl OutOfRange else Inr v)"

text \<open>\<open>std::to_string\<close> of an unsigned size: its decimal digits.\<close>

fun to_string :: "nat \<Rightarrow> string" where
  "to_string n =
     (if n < 10 then [digit_char n] else to_string (n div 10) @ [digit_char (n mod 10)])"

declare to_string.simps [simp del]

text \<open>\<open>operator<<\<close> of an \<open>int\<close> on an output stream: decimal, with a sign when negative.\<close>

definition show_int :: "int \<Rightarrow> string" where
  "show_int i = (if i < 0 then CHR ''-'' # to_string (nat (- i)) else to_string (nat i))"

section \<open>\<open>std::istringstream\<close>\<close>

text \<open>
  The input stream over the request text: the characters not yet read and the two state
  bits the parser can observe. The stream is \<open>good\<close> when neither bit is set; it
  converts to \<open>true\<close> when \<open>failbit\<close> is clear.
\<close>

record istringstream =
  rest :: string
  eofbit :: bool
  failbit :: bool

definition good :: "istringstream \<Rightarrow> bool" where
  "good s \<longleftrightarrow> \<not> eofbit s \<and> \<not> failbit s"

definition istringstream_of :: "string \<Rightarrow> istringstream" where
  "istringstream_of str = \<lparr>rest = str, eofbit = False, failbit = False\<rparr>"

text \<open>
  \<open>std::getline(is, line)\<close>. On a stream that is not good the sentry fails: \<open>failbit\<close> is
  set and \<open>line\<close> is left as it was. Otherwise \<open>line\<close> is erased and characters are taken
  up to the next line feed, which is consumed and not stored. Reaching the end of the
  text sets \<open>eofbit\<close>; taking no character at all sets \<open>failbit\<close> as well.
\<close>

definition getline :: "istringstream \<Rightarrow> string \<Rightarrow> string \<times> istringstream" where
  "getline s line =
     (if \<not> good s then (line, s\<lparr>failbit := True\<rparr>)
      else if rest s = [] then ([], s\<lparr>eofbit := True, failbit := True\<rparr>)
      else let l = takeWhile (\<lambda>c. c \<noteq> LF) (rest s);
               r = dropWhile (\<lambda>c. c \<noteq> LF) (rest s)
           in if r = [] then (l, s\<lparr>rest := [], eofbit := True\<rparr>)
              else (l, s\<lparr>rest := tl r\<rparr>))"

text \<open>
  \<open>is >> str\<close> for a string. The sentry skips white space; when the stream is not good
  or the text ends while skipping, \<open>failbit\<close> is set and \<open>str\<close> keeps its value.
  Otherwise \<open>str\<close> becomes the run of characters up to the next white space, and
  \<open>eofbit\<close> is set when that run ends the text.
\<close>

definition extract_word :: "istringstream \<Rightarrow> string \<Rightarrow> string \<times> istringstream" where
  "extract_word s str =
     (if \<not> good s then (str, s\<lparr>failbit := True\<rparr>)
      else let r = dropWhile isspace (rest s)
           in if r = [] then (str, s\<lparr>rest := [], eofbit := True, failbit := True\<rparr>)
              else let w = takeWhile (\<lambda>c. \<not> isspace c) r;
                       r' = dropWhile (\<lambda>c. \<not> isspace c) r
                   in (w, s\<lparr>rest := r', eofbit := (r' = [])\<rparr>))"

text \<open>
  \<open>is.read(buf, n)\<close>: on a stream that is not good nothing is stored. Otherwise up to
  \<open>n\<close> of the remaining characters overwrite the front of the buffer; fewer than \<open>n\<close>
  available sets both bits. The buffer is returned with its other cells untouched.
\<close>

definition read :: "istringstream \<Rightarrow> string \<Rightarrow> nat \<Rightarrow> string \<times> istringstream" where
  "read s buf n =
     (if \<not> good s then (buf, s\<lparr>failbit := True\<rparr>)
      else let got = take n (rest s)
           in (got @ drop (length got) buf,
               s\<lparr>rest := drop n (rest s),
                 eofbit := (length (rest s) < n),
                 failbit := (length (rest s) < n)\<rparr>))"

section \<open>\<open>HTTPRequest\<close>\<close>

record HTTPRequest =
  "method" :: string
  path :: string
  version :: string
  headers :: "string \<rightharpoonup> string"
  body :: string

text \<open>A default-constructed request: every member empty.\<close>

definition HTTPRequest_new :: HTTPRequest where
  "HTTPRequest_new = \<lparr>method = [], path = [], version = [], headers = Map.empty, body = []\<rparr>"

text \<open>
  The request line (lines 38 to 41): when a first line can be read, a stream over it
  feeds \<open>method\<close>, \<open>path\<close> and \<open>version\<close> in turn.
\<close>

definition parse_request_line :: "string \<Rightarrow> HTTPRequest \<Rightarrow> HTTPRequest" where
  "parse_request_line line self =
     (let line_stream = istringstream_of line;
          (m, s1) = extract_word line_stream (method self);
          (p, s2) = extract_word s1 (path self);
          (v, s3) = extract_word s2 (version self)
      in self\<lparr>method := m, path := p, version := v\<rparr>)"

text \<open>
  The body of the header loop (lines 45 to 57): a trailing carriage return is dropped
  (the loop condition has made the line non-empty), the line is split at its first
  colon, the value loses its leading spaces and tabs, and the pair is stored, overwriting
  an earlier value of the same key. A line with no colon stores nothing.
\<close>

definition strip_cr :: "string \<Rightarrow> string" where
  "strip_cr line = (if last line = CR then butlast line else line)"

definition store_header :: "string \<Rightarrow> (string \<rightharpoonup> string) \<Rightarrow> (string \<rightharpoonup> string)" where
  "store_header line hs =
     (if CHR '':'' \<in> set line then
        let key = takeWhile (\<lambda>c. c \<noteq> CHR '':'') line;
            val = tl (dropWhile (\<lambda>c. c \<noteq> CHR '':'') line);
            val' = dropWhile (\<lambda>c. c = CHR '' '' \<or> c = TAB) val
        in hs(key \<mapsto> val')
      else hs)"

text \<open>
  The header loop (line 44): lines are read until \<open>getline\<close> fails or yields an empty
  line or a lone carriage return. The terminating line is consumed. The result is the
  header table, the \<open>line\<close> variable and the stream as the loop leaves them.
\<close>

function parse_headers ::
  "istringstream \<Rightarrow> string \<Rightarrow> (string \<rightharpoonup> string) \<Rightarrow> (string \<rightharpoonup> string) \<times> string \<times> istringstream"
where
  "parse_headers iss line hs =
     (let g = getline iss line
      in if \<not> failbit (snd g) \<and> fst g \<noteq> [] \<and> fst g \<noteq> [CR]
         then parse_headers (snd g) (strip_cr (fst g)) (store_header (strip_cr (fst g)) hs)
         else (hs, fst g, snd g))"
  by pat_completeness auto

lemma length_tl_dropWhile: "xs \<noteq> [] \<Longrightarrow> length (dropWhile P xs) - Suc 0 < length xs"
proof -
  assume "xs \<noteq> []"
  then have "0 < length xs"
    by simp
  moreover have "length (dropWhile P xs) \<le> length xs"
    by (rule length_dropWhile_le)
  ultimately show ?thesis
    by arith
qed

lemma getline_shorter:
  "\<not> failbit (snd (getline iss line)) \<Longrightarrow> length (rest (snd (getline iss line))) < length (rest iss)"
  by (auto simp: getline_def Let_def good_def length_tl_dropWhile split: if_splits)

termination parse_headers
  by (relation "measure (\<lambda>(iss, line, hs). length (rest iss))") (auto simp: getline_shorter)

declare parse_headers.simps [simp del]

text \<open>
  The body (lines 61 to 66): with a \<open>Content-Length\<close> header, its value goes through
  \<open>std::stoi\<close>, a zero-filled buffer of that many bytes is allocated (a negative
  \<open>int\<close> converts to a size that no vector can have, which raises
  \<open>std::length_error\<close>), the stream reads into it, and the body is the whole buffer.
  Without the header the body is left alone. The allocation is taken to succeed for
  every size an \<open>int\<close> can hold.
\<close>

definition parse_body :: "istringstream \<Rightarrow> HTTPRequest \<Rightarrow> exception + HTTPRequest" where
  "parse_body iss self =
     (case headers self ''Content-Length'' of
        None \<Rightarrow> Inr self
      | Some v \<Rightarrow>
          (case stoi v of
             Inl e \<Rightarrow> Inl e
           | Inr content_length \<Rightarrow>
               if content_length < 0 then Inl LengthError
               else let body_buffer = replicate (nat content_length) NUL;
                        (body_buffer', iss') = read iss body_buffer (nat content_length)
                    in Inr (self\<lparr>body := take (nat content_length) body_buffer'\<rparr>)))"

text \<open>
  The state of the parse when the header loop ends: the request with its request line
  and headers stored, and the stream positioned where the body is read from.
\<close>

definition parse_head :: "string \<Rightarrow> HTTPRequest \<Rightarrow> HTTPRequest \<times> istringstream" where
  "parse_head request_str self =
     (let iss = istringstream_of request_str;
          (line, iss1) = getline iss [];
          self1 = (if \<not> failbit iss1 then parse_request_line line self else self);
          (hs, line2, iss2) = parse_headers iss1 line (headers self1)
      in (self1\<lparr>headers := hs\<rparr>, iss2))"

text \<open>\<open>HTTPRequest::parse\<close> (lines 33 to 67), on the object \<open>self\<close>.\<close>

definition parse :: "string \<Rightarrow> HTTPRequest \<Rightarrow> exception + HTTPRequest" where
  "parse request_str self =
     (let (self', iss) = parse_head request_str self in parse_body iss self')"

section \<open>\<open>HTTPResponse\<close>\<close>

record HTTPResponse =
  version :: string
  status_code :: int
  status_message :: string
  headers :: "string \<rightharpoonup> string"
  body :: string

text \<open>The constructor (line 78).\<close>

definition HTTPResponse_new :: HTTPResponse where
  "HTTPResponse_new =
     \<lparr>version = ''HTTP/1.1'', status_code = 200, status_message = ''OK'',
      headers = Map.empty, body = []\<rparr>"

text \<open>\<open>HTTPResponse::setContent\<close> (lines 80 to 84), its three assignments in order.\<close>

definition setContent :: "string \<Rightarrow> string \<Rightarrow> HTTPResponse \<Rightarrow> HTTPResponse" where
  "setContent content content_type self =
     (let s1 = self\<lparr>body := content\<rparr>;
          s2 = s1\<lparr>headers := (headers s1)(''Content-Type'' \<mapsto> content_type)\<rparr>
      in s2\<lparr>headers := (headers s2)(''Content-Length'' \<mapsto> to_string (length (body s2)))\<rparr>)"

text \<open>
  Iterating a \<open>std::unordered_map\<close> visits every entry once, in an order the library's
  hash table decides. The order is a parameter \<open>iter\<close> of the model, from the table to
  the list of entries visited; \<open>iterates m kvs\<close> says that \<open>kvs\<close> is such a visit of
  \<open>m\<close>.
\<close>

type_synonym iteration = "(string \<rightharpoonup> string) \<Rightarrow> (string \<times> string) list"

definition iterates :: "(string \<rightharpoonup> string) \<Rightarrow> (string \<times> string) list \<Rightarrow> bool" where
  "iterates m kvs \<longleftrightarrow> distinct (map fst kvs) \<and> map_of kvs = m"

text \<open>
  \<open>HTTPResponse::toString\<close> (lines 86 to 96): the output stream is the text written so
  far, and every \<open><<\<close> appends to it.
\<close>

definition toString :: "iteration \<Rightarrow> HTTPResponse \<Rightarrow> string" where
  "toString iter self =
     (let oss = [] @ version self @ '' '' @ show_int (status_code self) @ '' ''
                @ status_message self @ CRLF;
          oss' = foldl (\<lambda>oss header. oss @ fst header @ '': '' @ snd header @ CRLF)
                   oss (iter (headers self))
      in oss' @ CRLF @ body self)"

section \<open>\<open>WebServer\<close>\<close>

text \<open>
  A handler is arbitrary code of the embedding application: it sees the file system as it
  is when it runs and the request, and either mutates the response or throws.
\<close>

type_synonym filesystem = "string \<rightharpoonup> string"

type_synonym handler = "filesystem \<Rightarrow> HTTPRequest \<Rightarrow> HTTPResponse \<Rightarrow> exception + HTTPResponse"

type_synonym socket = nat

text \<open>
  The server object: \<open>server_socket\<close> is \<open>None\<close> for \<open>INVALID_SOCKET\<close>.
\<close>

record WebServer =
  server_socket :: "socket option"
  port :: int
  running :: bool
  routes :: "string \<rightharpoonup> handler"

definition WebServer_new :: "int \<Rightarrow> WebServer" where
  "WebServer_new p = \<lparr>server_socket = None, port = p, running = False, routes = Map.empty\<rparr>"

definition addRoute :: "string \<Rightarrow> handler \<Rightarrow> WebServer \<Rightarrow> WebServer" where
  "addRoute pth h self = self\<lparr>routes := (routes self)(pth \<mapsto> h)\<rparr>"

text \<open>The fixed page of both 404 branches (lines 190 and 233).\<close>

definition not_found_html :: string where
  "not_found_html = ''<html><body><h1>404 Not Found</h1></body></html>''"

text \<open>The local \<open>hasExtension\<close> (lines 165 to 168) and the chain that uses it (164 to 184).\<close>

definition hasExtension :: "string \<Rightarrow> string \<Rightarrow> bool" where
  "hasExtension str ext =
     (if length str < length ext then False
      else drop (length str - length ext) str = ext)"

definition content_type_of :: "string \<Rightarrow> string" where
  "content_type_of file_path =
     (if hasExtension file_path ''.html'' \<or> hasExtension file_path ''.htm'' then ''text/html''
      else if hasExtension file_path ''.css'' then ''text/css''
      else if hasExtension file_path ''.js'' then ''application/javascript''
      else if hasExtension file_path ''.json'' then ''application/json''
      else if hasExtension file_path ''.png'' then ''image/png''
      else if hasExtension file_path ''.jpg'' \<or> hasExtension file_path ''.jpeg'' then ''image/jpeg''
      else if hasExtension file_path ''.gif'' then ''image/gif''
      else ''text/plain'')"

text \<open>
  The handler that \<open>addStaticFileRoute\<close> builds (lines 156 to 192). The file system maps
  a path to the bytes of the file when it can be opened.
\<close>

definition static_file_handler :: "string \<Rightarrow> handler" where
  "static_file_handler file_path fs req res =
     (case fs file_path of
        Some bytes \<Rightarrow> Inr (setContent bytes (content_type_of file_path) res)
      | None \<Rightarrow>
          Inr (setContent not_found_html ''text/html''
                 (res\<lparr>status_code := 404, status_message := ''Not Found''\<rparr>)))"

definition addStaticFileRoute :: "string \<Rightarrow> string \<Rightarrow> WebServer \<Rightarrow> WebServer" where
  "addStaticFileRoute pth file_path self =
     self\<lparr>routes := (routes self)(pth \<mapsto> static_file_handler file_path)\<rparr>"

text \<open>
  What a client socket delivers to the one \<open>recv\<close> call: an error, or the bytes queued
  on the socket (none when the peer has closed). \<open>recv\<close> returns the count and the bytes
  stored, at most \<open>len\<close>.
\<close>

datatype recv_input = RecvError | Incoming string

definition recv :: "recv_input \<Rightarrow> nat \<Rightarrow> int \<times> string" where
  "recv inp len =
     (case inp of
        RecvError \<Rightarrow> (- 1, [])
      | Incoming s \<Rightarrow> (int (length (take len s)), take len s))"

definition buffer_size :: nat where
  "buffer_size = 8192"

text \<open>The read of lines 215 to 217 and the string of line 220.\<close>

definition read_request :: "recv_input \<Rightarrow> int \<times> string" where
  "read_request inp =
     (let (bytes_received, buffer) = recv inp (buffer_size - 1)
      in (bytes_received, take (nat bytes_received) buffer))"

text \<open>Routing (lines 224 to 234): the handler of the exact path, or the 404 response.\<close>

definition route_request ::
  "(string \<rightharpoonup> handler) \<Rightarrow> filesystem \<Rightarrow> HTTPRequest \<Rightarrow> exception + HTTPResponse"
where
  "route_request rts fs request =
     (let response = HTTPResponse_new
      in case rts (path request) of
           Some h \<Rightarrow> h fs request response
         | None \<Rightarrow>
             Inr (setContent not_found_html ''text/html''
                    (response\<lparr>status_code := 404, status_message := ''Not Found''\<rparr>)))"

text \<open>
  What the server does to its sockets, in order. Console output is not modelled.
\<close>

datatype effect = Send socket string | CloseSocket socket

text \<open>
  One accepted connection (lines 214 to 241): the effects on the sockets, and the
  exception that left the block, if one did.
\<close>

definition handle_connection ::
  "iteration \<Rightarrow> (string \<rightharpoonup> handler) \<Rightarrow> socket \<Rightarrow> recv_input \<Rightarrow> filesystem
     \<Rightarrow> effect list \<times> exception option"
where
  "handle_connection iter rts client_socket inp fs =
     (let (bytes_received, request_str) = read_request inp
      in if bytes_received > 0 then
           (case parse request_str HTTPRequest_new of
              Inl e \<Rightarrow> ([], Some e)
            | Inr request \<Rightarrow>
                (case route_request rts fs request of
                   Inl e \<Rightarrow> ([], Some e)
                 | Inr response \<Rightarrow>
                     ([Send client_socket (toString iter response), CloseSocket client_socket],
                      None)))
         else ([CloseSocket client_socket], None))"

text \<open>
  What \<open>accept\<close> returns, one value per call: a failure, or a client socket with what it
  delivers and the file system as it is while the connection is handled.
\<close>

datatype accept_result = AcceptFailed | Accepted socket recv_input filesystem

text \<open>
  The accept loop (lines 200 to 242) over the connections that arrive. Nothing in the loop
  clears \<open>running\<close> (handlers are taken not to reach the server object), so it ends
  only by an exception; when the list is used up the server is blocked in \<open>accept\<close>.
\<close>

fun accept_loop ::
  "iteration \<Rightarrow> (string \<rightharpoonup> handler) \<Rightarrow> accept_result list \<Rightarrow> effect list \<times> exception option"
where
  "accept_loop iter rts [] = ([], None)"
| "accept_loop iter rts (AcceptFailed # rs) = accept_loop iter rts rs"
| "accept_loop iter rts (Accepted client_socket inp fs # rs) =
     (case handle_connection iter rts client_socket inp fs of
        (effs, Some e) \<Rightarrow> (effs, Some e)
      | (effs, None) \<Rightarrow>
          (let (effs', r) = accept_loop iter rts rs in (effs @ effs', r)))"

text \<open>
  \<open>initializeSocket\<close> (lines 106 to 139, the POSIX branch): the system calls decide
  the outcome. Every failure but that of \<open>socket\<close> itself leaves the descriptor in
  \<open>server_socket\<close>.
\<close>

datatype init_outcome =
    Listening socket
  | SocketFailed
  | SetsockoptFailed socket
  | BindFailed socket
  | ListenFailed socket

definition initializeSocket :: "init_outcome \<Rightarrow> WebServer \<Rightarrow> WebServer \<times> exception option" where
  "initializeSocket out self =
     (case out of
        Listening fd \<Rightarrow> (self\<lparr>server_socket := Some fd\<rparr>, None)
      | SocketFailed \<Rightarrow>
          (self\<lparr>server_socket := None\<rparr>, Some (RuntimeError ''Could not create socket''))
      | SetsockoptFailed fd \<Rightarrow>
          (self\<lparr>server_socket := Some fd\<rparr>, Some (RuntimeError ''setsockopt failed''))
      | BindFailed fd \<Rightarrow> (self\<lparr>server_socket := Some fd\<rparr>, Some (RuntimeError ''Bind failed''))
      | ListenFailed fd \<Rightarrow>
          (self\<lparr>server_socket := Some fd\<rparr>, Some (RuntimeError ''Listen failed'')))"

text \<open>
  Whether \<open>start\<close> has returned, or is still in its loop waiting for a connection.
\<close>

datatype progress = Accepting | Returned exception

text \<open>The closing of the listening socket after the \<open>catch\<close> (lines 247 to 250).\<close>

definition close_server_socket :: "WebServer \<Rightarrow> effect list \<times> WebServer" where
  "close_server_socket self =
     (case server_socket self of
        Some fd \<Rightarrow> ([CloseSocket fd], self\<lparr>server_socket := None\<rparr>)
      | None \<Rightarrow> ([], self))"

text \<open>
  \<open>WebServer::start\<close> (lines 195 to 251). The \<open>try\<close> block encloses the whole loop: an
  exception from \<open>initializeSocket\<close> or from inside an iteration leaves the loop for the
  \<open>catch\<close>, after which the listening socket is closed and \<open>start\<close> returns.
\<close>

definition start ::
  "iteration \<Rightarrow> init_outcome \<Rightarrow> accept_result list \<Rightarrow> WebServer
     \<Rightarrow> effect list \<times> WebServer \<times> progress"
where
  "start iter out rs self =
     (case initializeSocket out self of
        (self1, Some e) \<Rightarrow>
          (let (effs, self2) = close_server_socket self1 in (effs, self2, Returned e))
      | (self1, None) \<Rightarrow>
          (let self2 = self1\<lparr>running := True\<rparr>
           in case accept_loop iter (routes self2) rs of
                (effs, None) \<Rightarrow> (effs, self2, Accepting)
              | (effs, Some e) \<Rightarrow>
                  (let (effs', self3) = close_server_socket self2
                   in (effs @ effs', self3, Returned e))))"

text \<open>\<open>WebServer::stop\<close> (lines 253 to 259).\<close>

definition stop :: "WebServer \<Rightarrow> effect list \<times> WebServer" where
  "stop self = close_server_socket (self\<lparr>running := False\<rparr>)"

section \<open>Request texts as the spec describes them\<close>

text \<open>
  These definitions are not code of the server: they write down the request texts that
  the spec's parsing property quantifies over. A request text is the request line, its
  three tokens separated by white space, then the header lines \<open>Name: value\<close> and a
  blank line; every line ends with CRLF or, tolerated, with a bare line feed. A token is
  a non-empty word without white space; a separator is a non-empty run of white space
  without a line feed; a header name has no colon and no line feed; a header value has
  no line feed, does not start with a space or a tab and does not end with a carriage
  return.
\<close>

definition token :: "string \<Rightarrow> bool" where
  "token w \<longleftrightarrow> w \<noteq> [] \<and> list_all (\<lambda>c. \<not> isspace c) w"

definition separator :: "string \<Rightarrow> bool" where
  "separator ws \<longleftrightarrow> ws \<noteq> [] \<and> list_all (\<lambda>c. isspace c \<and> c \<noteq> LF) ws"

definition line_end :: "string \<Rightarrow> bool" where
  "line_end eol \<longleftrightarrow> eol = CRLF \<or> eol = [LF]"

definition header_name :: "string \<Rightarrow> bool" where
  "header_name k \<longleftrightarrow> list_all (\<lambda>c. c \<noteq> CHR '':'' \<and> c \<noteq> LF) k"

definition header_value :: "string \<Rightarrow> bool" where
  "header_value x \<longleftrightarrow>
     list_all (\<lambda>c. c \<noteq> LF) x
     \<and> (case x of [] \<Rightarrow> True | c # _ \<Rightarrow> c \<noteq> CHR '' '' \<and> c \<noteq> TAB)
     \<and> (x = [] \<or> last x \<noteq> CR)"

definition header_line :: "string \<Rightarrow> string \<times> string \<Rightarrow> string" where
  "header_line eol kv = fst kv @ '': '' @ snd kv @ eol"

definition request_text ::
  "string \<Rightarrow> string \<Rightarrow> string \<Rightarrow> string \<Rightarrow> string \<Rightarrow> string \<Rightarrow> (string \<times> string) list \<Rightarrow> string"
where
  "request_text eol ws1 ws2 m p v hdrs =
     m @ ws1 @ p @ ws2 @ v @ eol @ concat (map (header_line eol) hdrs) @ eol"

section \<open>Properties of the response\<close>

lemma count_list_iterates:
  "distinct (map fst kvs) \<Longrightarrow> count_list kvs (k, v) = (if map_of kvs k = Some v then 1 else 0)"
proof (induction kvs)
  case Nil
  then show ?case by simp
next
  case (Cons a kvs)
  then show ?case
    by (cases a) (auto simp: map_of_eq_None_iff image_iff dest: map_of_SomeD)
qed

lemma foldl_header_lines:
  "foldl (\<lambda>oss header. oss @ fst header @ '': '' @ snd header @ CRLF) acc kvs
     = acc @ concat (map (\<lambda>(k, v). k @ '': '' @ v @ CRLF) kvs)"
  by (induction kvs arbitrary: acc) (auto simp: case_prod_beta)

lemma toString_eq:
  "toString iter r =
     version r @ '' '' @ show_int (status_code r) @ '' '' @ status_message r @ CRLF
     @ concat (map (\<lambda>(k, v). k @ '': '' @ v @ CRLF) (iter (headers r)))
     @ CRLF @ body r"
  unfolding toString_def Let_def foldl_header_lines by simp

lemma header_line_sublist:
  assumes "(k, v) \<in> set kvs"
  shows "sublist (k @ '': '' @ v @ CRLF) (pre @ concat (map (\<lambda>(k, v). k @ '': '' @ v @ CRLF) kvs) @ post)"
proof -
  from assms obtain xs ys where "kvs = xs @ (k, v) # ys"
    by (auto dest: split_list)
  then have "pre @ concat (map (\<lambda>(k, v). k @ '': '' @ v @ CRLF) kvs) @ post
      = (pre @ concat (map (\<lambda>(k, v). k @ '': '' @ v @ CRLF) xs))
        @ (k @ '': '' @ v @ CRLF)
        @ (concat (map (\<lambda>(k, v). k @ '': '' @ v @ CRLF) ys) @ post)"
    by simp
  then show ?thesis
    unfolding sublist_def by blast
qed

lemma toString_has_header:
  assumes "iterates (headers r) (iter (headers r))" and "headers r k = Some v"
  shows "sublist (k @ '': '' @ v @ CRLF) (toString iter r)"
proof -
  from assms have "map_of (iter (headers r)) k = Some v"
    by (simp add: iterates_def)
  then have "(k, v) \<in> set (iter (headers r))"
    by (rule map_of_SomeD)
  then have "sublist (k @ '': '' @ v @ CRLF)
     ((version r @ '' '' @ show_int (status_code r) @ '' '' @ status_message r @ CRLF)
      @ concat (map (\<lambda>(k, v). k @ '': '' @ v @ CRLF) (iter (headers r))) @ (CRLF @ body r))"
    by (rule header_line_sublist)
  then show ?thesis
    by (simp add: toString_eq)
qed

lemma toString_suffix: "suffix (CRLF @ CRLF @ body r) (toString iter r)"
proof (cases "iter (headers r)" rule: rev_cases)
  case Nil
  then show ?thesis
    by (simp add: toString_eq suffix_def)
next
  case (snoc kvs kv)
  then show ?thesis
    by (cases kv) (simp add: toString_eq suffix_def)
qed

lemma digit_val_digit_char: "d < 10 \<Longrightarrow> digit_val (digit_char d) = d"
proof -
  assume "d < 10"
  then have "d \<in> {0, 1, 2, 3, 4, 5, 6, 7, 8, 9}"
    by auto
  then show ?thesis
    by (auto simp: digit_val_def digit_char_def)
qed

lemma digits_value_snoc: "digits_value (ds @ [c]) = 10 * digits_value ds + digit_val c"
  by (simp add: digits_value_def)

lemma digits_value_to_string: "digits_value (to_string n) = n"
proof (induction n rule: to_string.induct)
  case (1 n)
  show ?case
  proof (cases "n < 10")
    case True
    then show ?thesis
      by (simp add: to_string.simps [of n] digits_value_def digit_val_digit_char)
  next
    case False
    with "1" show ?thesis
      by (simp add: to_string.simps [of n] digits_value_snoc digit_val_digit_char)
  qed
qed

text \<open>
  Claim C5. After \<open>setContent(c, t)\<close> on any response the body is \<open>c\<close>, the
  \<open>Content-Length\<close> header is the decimal numeral of the byte length of \<open>c\<close> and the
  \<open>Content-Type\<close> header is \<open>t\<close>; whatever order the header table is visited in, the
  serialised response contains the lines \<open>Content-Length: <length>\<close> and
  \<open>Content-Type: t\<close> and ends with the blank line followed by exactly \<open>c\<close>. The
  witness is the response of the spec's example, \<open>setContent("abc", "text/plain")\<close> on a
  new response.
\<close>
theorem setContent_sets_body_and_headers:
  assumes "iterates (headers (setContent c t r)) (iter (headers (setContent c t r)))"
  shows "body (setContent c t r) = c
       \<and> headers (setContent c t r) ''Content-Length'' = Some (to_string (length c))
       \<and> digits_value (to_string (length c)) = length c
       \<and> headers (setContent c t r) ''Content-Type'' = Some t
       \<and> sublist (''Content-Length: '' @ to_string (length c) @ CRLF) (toString iter (setContent c t r))
       \<and> sublist (''Content-Type: '' @ t @ CRLF) (toString iter (setContent c t r))
       \<and> suffix (CRLF @ CRLF @ c) (toString iter (setContent c t r))"
proof -
  have b: "body (setContent c t r) = c"
    by (simp add: setContent_def Let_def)
  have cl: "headers (setContent c t r) ''Content-Length'' = Some (to_string (length c))"
    by (simp add: setContent_def Let_def)
  have ct: "headers (setContent c t r) ''Content-Type'' = Some t"
    by (simp add: setContent_def Let_def)
  from toString_has_header [of "setContent c t r" iter, OF assms cl]
  have s1: "sublist (''Content-Length: '' @ to_string (length c) @ CRLF) (toString iter (setContent c t r))"
    by simp
  from toString_has_header [of "setContent c t r" iter, OF assms ct]
  have s2: "sublist (''Content-Type: '' @ t @ CRLF) (toString iter (setContent c t r))"
    by simp
  from toString_suffix [of "setContent c t r" iter] b
  have s3: "suffix (CRLF @ CRLF @ c) (toString iter (setContent c t r))"
    by simp
  from b cl ct s1 s2 s3 digits_value_to_string show ?thesis
    by blast
qed

theorem setContent_sets_body_and_headers_witness:
  "iterates (headers (setContent ''abc'' ''text/plain'' HTTPResponse_new))
      [(''Content-Length'', ''3''), (''Content-Type'', ''text/plain'')]
   \<and> body (setContent ''abc'' ''text/plain'' HTTPResponse_new) = ''abc''
   \<and> headers (setContent ''abc'' ''text/plain'' HTTPResponse_new) ''Content-Length'' = Some ''3''
   \<and> digits_value ''3'' = length ''abc''
   \<and> headers (setContent ''abc'' ''text/plain'' HTTPResponse_new) ''Content-Type'' = Some ''text/plain''
   \<and> sublist (''Content-Length: '' @ ''3'' @ CRLF)
        (toString (\<lambda>m. [(''Content-Length'', ''3''), (''Content-Type'', ''text/plain'')])
           (setContent ''abc'' ''text/plain'' HTTPResponse_new))
   \<and> sublist (''Content-Type: '' @ ''text/plain'' @ CRLF)
        (toString (\<lambda>m. [(''Content-Length'', ''3''), (''Content-Type'', ''text/plain'')])
           (setContent ''abc'' ''text/plain'' HTTPResponse_new))
   \<and> suffix (CRLF @ CRLF @ ''abc'')
        (toString (\<lambda>m. [(''Content-Length'', ''3''), (''Content-Type'', ''text/plain'')])
           (setContent ''abc'' ''text/plain'' HTTPResponse_new))"
proof -
  have ts: "to_string (length ''abc'') = ''3''"
    by (simp add: to_string.simps digit_char_def)
  have ts3: "to_string (Suc (Suc (Suc 0))) = ''3''"
    by (simp add: to_string.simps digit_char_def)
  have h: "iterates (headers (setContent ''abc'' ''text/plain'' HTTPResponse_new))
      ((\<lambda>m. [(''Content-Length'', ''3''), (''Content-Type'', ''text/plain'')])
         (headers (setContent ''abc'' ''text/plain'' HTTPResponse_new)))"
    by (simp add: iterates_def setContent_def HTTPResponse_new_def Let_def ts3)
  note t = setContent_sets_body_and_headers [OF h, unfolded ts]
  from h t show ?thesis
    by blast
qed

text \<open>
  Claim C6. Serialisation is the status line \<open><version> <status> <message>\<close> with
  CRLF, then one line \<open><name>: <value>\<close> with CRLF for each entry the iteration of the
  header table visits, then one CRLF, then the body bytes as they are. Every entry of the
  table is visited exactly once and nothing else is. A new response has version
  \<open>HTTP/1.1\<close>, status 200 (written \<open>200\<close>), message \<open>OK\<close>, no header and an empty
  body.
\<close>
theorem toString_layout:
  assumes "iterates (headers r) (iter (headers r))"
  shows "toString iter r =
           version r @ '' '' @ show_int (status_code r) @ '' '' @ status_message r @ CRLF
           @ concat (map (\<lambda>(k, v). k @ '': '' @ v @ CRLF) (iter (headers r)))
           @ CRLF @ body r
       \<and> (\<forall>k v. count_list (iter (headers r)) (k, v) = (if headers r k = Some v then 1 else 0))
       \<and> HTTPResponse_new =
           \<lparr>version = ''HTTP/1.1'', status_code = 200, status_message = ''OK'',
            headers = Map.empty, body = []\<rparr>
       \<and> show_int 200 = ''200''"
proof -
  from assms have d: "distinct (map fst (iter (headers r)))"
    and m: "map_of (iter (headers r)) = headers r"
    by (simp_all add: iterates_def)
  have "\<forall>k v. count_list (iter (headers r)) (k, v) = (if headers r k = Some v then 1 else 0)"
    using count_list_iterates [OF d] m by simp
  moreover have "show_int 200 = ''200''"
    by (simp add: show_int_def to_string.simps digit_char_def)
  ultimately show ?thesis
    by (simp add: toString_eq HTTPResponse_new_def)
qed

theorem toString_layout_witness:
  "iterates (headers (HTTPResponse_new\<lparr>headers := [''Server'' \<mapsto> ''cpp'']\<rparr>)) [(''Server'', ''cpp'')]
   \<and> toString (\<lambda>m. [(''Server'', ''cpp'')]) (HTTPResponse_new\<lparr>headers := [''Server'' \<mapsto> ''cpp'']\<rparr>)
       = ''HTTP/1.1 200 OK'' @ CRLF @ ''Server: cpp'' @ CRLF @ CRLF
   \<and> count_list [(''Server'', ''cpp'')] (''Server'', ''cpp'') = 1"
proof -
  have h: "iterates (headers (HTTPResponse_new\<lparr>headers := [''Server'' \<mapsto> ''cpp'']\<rparr>))
      ((\<lambda>m. [(''Server'', ''cpp'')]) (headers (HTTPResponse_new\<lparr>headers := [''Server'' \<mapsto> ''cpp'']\<rparr>)))"
    by (simp add: iterates_def)
  note t = toString_layout [OF h]
  have s: "show_int 200 = ''200''"
    by (rule t [THEN conjunct2, THEN conjunct2, THEN conjunct2])
  have out: "toString (\<lambda>m. [(''Server'', ''cpp'')]) (HTTPResponse_new\<lparr>headers := [''Server'' \<mapsto> ''cpp'']\<rparr>)
       = ''HTTP/1.1 200 OK'' @ CRLF @ ''Server: cpp'' @ CRLF @ CRLF"
    by (subst t [THEN conjunct1]) (simp add: HTTPResponse_new_def s)
  have c: "count_list [(''Server'', ''cpp'')] (''Server'', ''cpp'') = 1"
    using t [THEN conjunct2, THEN conjunct1, rule_format, of "''Server''" "''cpp''"]
    by (simp add: HTTPResponse_new_def)
  from h out c show ?thesis
    by blast
qed

text \<open>
  Claim C10. \<open>setContent\<close> leaves the version, the status code, the status message and
  every header entry other than \<open>Content-Type\<close> and \<open>Content-Length\<close> as they were.
\<close>
theorem setContent_frame:
  "version (setContent c t r) = version r
   \<and> status_code (setContent c t r) = status_code r
   \<and> status_message (setContent c t r) = status_message r
   \<and> (\<forall>k. k \<noteq> ''Content-Type'' \<and> k \<noteq> ''Content-Length''
          \<longrightarrow> headers (setContent c t r) k = headers r k)"
  by (simp add: setContent_def Let_def)

theorem setContent_frame_witness:
  "version (setContent ''abc'' ''text/plain''
      \<lparr>version = ''HTTP/1.0'', status_code = 201, status_message = ''Created'',
       headers = [''Server'' \<mapsto> ''cpp''], body = ''old''\<rparr>) = ''HTTP/1.0''
   \<and> status_code (setContent ''abc'' ''text/plain''
      \<lparr>version = ''HTTP/1.0'', status_code = 201, status_message = ''Created'',
       headers = [''Server'' \<mapsto> ''cpp''], body = ''old''\<rparr>) = 201
   \<and> status_message (setContent ''abc'' ''text/plain''
      \<lparr>version = ''HTTP/1.0'', status_code = 201, status_message = ''Created'',
       headers = [''Server'' \<mapsto> ''cpp''], body = ''old''\<rparr>) = ''Created''
   \<and> headers (setContent ''abc'' ''text/plain''
      \<lparr>version = ''HTTP/1.0'', status_code = 201, status_message = ''Created'',
       headers = [''Server'' \<mapsto> ''cpp''], body = ''old''\<rparr>) ''Server'' = Some ''cpp''"
  using setContent_frame [of "''abc''" "''text/plain''"
      "\<lparr>version = ''HTTP/1.0'', status_code = 201, status_message = ''Created'',
       headers = [''Server'' \<mapsto> ''cpp''], body = ''old''\<rparr>"]
  by simp

section \<open>Properties of the parser\<close>

lemma takeWhile_neq_append: "c \<notin> set l \<Longrightarrow> takeWhile (\<lambda>x. x \<noteq> c) (l @ c # r) = l"
  by (induction l) auto

lemma dropWhile_neq_append: "c \<notin> set l \<Longrightarrow> dropWhile (\<lambda>x. x \<noteq> c) (l @ c # r) = c # r"
  by (induction l) auto

lemma getline_line:
  assumes "LF \<notin> set l"
  shows "getline \<lparr>rest = l @ LF # r, eofbit = False, failbit = False\<rparr> line
         = (l, \<lparr>rest = r, eofbit = False, failbit = False\<rparr>)"
proof -
  from assms have t: "takeWhile (\<lambda>c. c \<noteq> LF) (l @ LF # r) = l"
    by (rule takeWhile_neq_append)
  from assms have d: "dropWhile (\<lambda>c. c \<noteq> LF) (l @ LF # r) = LF # r"
    by (rule dropWhile_neq_append)
  show ?thesis
    by (simp add: getline_def Let_def good_def t d)
qed

lemma extract_word_token:
  assumes "token w" and "list_all isspace ws" and "r = [] \<or> isspace (hd r)"
  shows "extract_word \<lparr>rest = ws @ w @ r, eofbit = False, failbit = False\<rparr> str
         = (w, \<lparr>rest = r, eofbit = (r = []), failbit = False\<rparr>)"
proof -
  from assms(1) obtain c cs where w: "w = c # cs" and c: "\<not> isspace c"
    and cs: "\<forall>x\<in>set w. \<not> isspace x"
    by (cases w) (auto simp: token_def list_all_iff)
  from assms(2) have "dropWhile isspace (ws @ w @ r) = dropWhile isspace (w @ r)"
    by (simp add: list_all_iff)
  also have "\<dots> = w @ r"
    using w c by simp
  finally have d: "dropWhile isspace (ws @ w @ r) = w @ r" .
  have t: "takeWhile (\<lambda>c. \<not> isspace c) (w @ r) = w"
    using cs assms(3) by (cases r) simp_all
  have d2: "dropWhile (\<lambda>c. \<not> isspace c) (w @ r) = r"
    using cs assms(3) by (cases r) simp_all
  have ne: "w \<noteq> []"
    using w by simp
  show ?thesis
    unfolding extract_word_def Let_def
    by (simp add: good_def d t d2 ne del: append_assoc)
qed

lemma separator_props:
  assumes "separator ws"
  shows "list_all isspace ws" and "LF \<notin> set ws" and "ws \<noteq> []" and "isspace (hd (ws @ r))"
  using assms by (cases ws; auto simp: separator_def list_all_iff)+

lemma parse_request_line_separated:
  assumes "token m" and "token p" and "token v" and "separator ws1" and "separator ws2"
    and "list_all isspace e"
  shows "parse_request_line (m @ ws1 @ p @ ws2 @ v @ e) self
         = \<lparr>method = m, path = p, version = v,
            headers = HTTPRequest.headers self, body = HTTPRequest.body self\<rparr>"
proof -
  have n: "list_all isspace []"
    by simp
  have r1: "ws1 @ p @ ws2 @ v @ e = [] \<or> isspace (hd (ws1 @ p @ ws2 @ v @ e))"
    using separator_props(4) [OF assms(4)] by simp
  have r2: "ws2 @ v @ e = [] \<or> isspace (hd (ws2 @ v @ e))"
    using separator_props(4) [OF assms(5)] by simp
  have r3: "e = [] \<or> isspace (hd e)"
    using assms(6) by (cases e) simp_all
  have ne1: "ws1 @ p @ ws2 @ v @ e \<noteq> []"
    using separator_props(3) [OF assms(4)] by simp
  have ne2: "ws2 @ v @ e \<noteq> []"
    using separator_props(3) [OF assms(5)] by simp
  have e1: "extract_word (istringstream_of (m @ ws1 @ p @ ws2 @ v @ e)) (method self)
      = (m, \<lparr>rest = ws1 @ p @ ws2 @ v @ e, eofbit = False, failbit = False\<rparr>)"
    using extract_word_token [OF assms(1) n r1, of "method self"] ne1
    by (simp add: istringstream_of_def)
  have e2: "extract_word \<lparr>rest = ws1 @ p @ ws2 @ v @ e, eofbit = False, failbit = False\<rparr> (path self)
      = (p, \<lparr>rest = ws2 @ v @ e, eofbit = False, failbit = False\<rparr>)"
    using extract_word_token [OF assms(2) separator_props(1) [OF assms(4)] r2, of "path self"] ne2
    by simp
  have e3: "extract_word \<lparr>rest = ws2 @ v @ e, eofbit = False, failbit = False\<rparr> (HTTPRequest.version self)
      = (v, \<lparr>rest = e, eofbit = (e = []), failbit = False\<rparr>)"
    using extract_word_token [OF assms(3) separator_props(1) [OF assms(5)] r3, of "HTTPRequest.version self"]
    by simp
  show ?thesis
    unfolding parse_request_line_def Let_def e1 prod.case e2 e3 by simp
qed

lemma store_header_line:
  assumes "header_name k" and "header_value x"
  shows "store_header (k @ '': '' @ x) hs = hs(k \<mapsto> x)"
proof -
  from assms(1) have k: "CHR '':'' \<notin> set k"
    by (auto simp: header_name_def list_all_iff)
  have t: "takeWhile (\<lambda>c. c \<noteq> CHR '':'') (k @ CHR '':'' # CHR '' '' # x) = k"
    using k by (rule takeWhile_neq_append)
  have d: "dropWhile (\<lambda>c. c \<noteq> CHR '':'') (k @ CHR '':'' # CHR '' '' # x) = CHR '':'' # CHR '' '' # x"
    using k by (rule dropWhile_neq_append)
  from assms(2) have v: "dropWhile (\<lambda>c. c = CHR '' '' \<or> c = TAB) x = x"
    by (cases x) (simp_all add: header_value_def)
  show ?thesis
    by (simp add: store_header_def Let_def t d v)
qed

lemma strip_cr_line: "strip_cr (l @ [CR]) = l"
  by (simp add: strip_cr_def)

lemma strip_cr_header:
  assumes "header_value x" and "e = [CR] \<or> e = []"
  shows "strip_cr (k @ '': '' @ x @ e) = k @ '': '' @ x"
proof (cases "e = []")
  case True
  have "last (k @ '': '' @ x) \<noteq> CR"
    using assms(1) by (cases "x = []") (auto simp: header_value_def)
  with True show ?thesis
    by (simp add: strip_cr_def)
next
  case False
  with assms(2) have "e = [CR]"
    by simp
  then show ?thesis
    using strip_cr_line [of "k @ '': '' @ x"] by simp
qed

lemma map_add_store:
  "hs(k \<mapsto> x) ++ map_of (rev hdrs) = hs ++ map_of (rev ((k, x) # hdrs))"
  by (rule ext) (simp add: map_add_def split: option.splits)

lemma parse_headers_lines:
  assumes "list_all (\<lambda>kv. header_name (fst kv) \<and> header_value (snd kv)) hdrs"
    and "e = [CR] \<or> e = []"
  shows "parse_headers \<lparr>rest = concat (map (header_line (e @ [LF])) hdrs) @ (e @ [LF]) @ tail,
                          eofbit = False, failbit = False\<rparr> line hs
         = (hs ++ map_of (rev hdrs), e, \<lparr>rest = tail, eofbit = False, failbit = False\<rparr>)"
  using assms(1)
proof (induction hdrs arbitrary: line hs)
  case Nil
  from assms(2) show ?case
  proof
    assume e: "e = [CR]"
    have "getline \<lparr>rest = [CR] @ LF # tail, eofbit = False, failbit = False\<rparr> line
        = ([CR], \<lparr>rest = tail, eofbit = False, failbit = False\<rparr>)"
      by (rule getline_line) simp
    then show ?thesis
      unfolding e by (subst parse_headers.simps) simp
  next
    assume e: "e = []"
    have "getline \<lparr>rest = [] @ LF # tail, eofbit = False, failbit = False\<rparr> line
        = ([], \<lparr>rest = tail, eofbit = False, failbit = False\<rparr>)"
      by (rule getline_line) simp
    then show ?thesis
      unfolding e by (subst parse_headers.simps) simp
  qed
next
  case (Cons kv hdrs)
  obtain k x where kv: "kv = (k, x)"
    by (cases kv)
  from Cons.prems kv have k: "header_name k" and x: "header_value x"
    and rest: "list_all (\<lambda>kv. header_name (fst kv) \<and> header_value (snd kv)) hdrs"
    by simp_all
  have "LF \<notin> set k"
    using k by (auto simp: header_name_def list_all_iff)
  moreover have "LF \<notin> set x"
    using x by (auto simp: header_value_def list_all_iff)
  moreover have "LF \<notin> set e"
    using assms(2) by auto
  ultimately have nl: "LF \<notin> set (k @ '': '' @ x @ e)"
    by simp
  have g: "getline \<lparr>rest = (k @ '': '' @ x @ e) @ LF
                       # concat (map (header_line (e @ [LF])) hdrs) @ (e @ [LF]) @ tail,
                     eofbit = False, failbit = False\<rparr> line
        = (k @ '': '' @ x @ e,
           \<lparr>rest = concat (map (header_line (e @ [LF])) hdrs) @ (e @ [LF]) @ tail,
            eofbit = False, failbit = False\<rparr>)"
    using nl by (rule getline_line)
  note s = strip_cr_header [OF x assms(2), of k]
  have two: "l \<noteq> [] \<and> l \<noteq> [CR]" if "2 \<le> length l" for l :: string
    using that by auto
  have "2 \<le> length (k @ '': '' @ x @ e)"
    by simp
  then have ne: "k @ '': '' @ x @ e \<noteq> [] \<and> k @ '': '' @ x @ e \<noteq> [CR]"
    by (rule two)
  have nf: "\<not> failbit \<lparr>rest = concat (map (header_line (e @ [LF])) hdrs) @ (e @ [LF]) @ tail,
            eofbit = False, failbit = False\<rparr>"
    by simp
  from nf ne have c: "\<not> failbit \<lparr>rest = concat (map (header_line (e @ [LF])) hdrs) @ (e @ [LF]) @ tail,
            eofbit = False, failbit = False\<rparr> \<and> k @ '': '' @ x @ e \<noteq> [] \<and> k @ '': '' @ x @ e \<noteq> [CR]"
    by (rule conjI)
  have r: "concat (map (header_line (e @ [LF])) ((k, x) # hdrs)) @ (e @ [LF]) @ tail
      = (k @ '': '' @ x @ e) @ LF
          # concat (map (header_line (e @ [LF])) hdrs) @ (e @ [LF]) @ tail"
    by (simp add: header_line_def)
  show ?case
    unfolding kv r
    by (subst parse_headers.simps)
       (simp only: g Let_def fst_conv snd_conv if_P [OF c] s store_header_line [OF k x]
          Cons.IH [OF rest] map_add_store)
qed

lemma token_no_LF: "token w \<Longrightarrow> LF \<notin> set w"
  by (auto simp: token_def list_all_iff isspace_def)

lemma line_end_cases:
  assumes "line_end eol"
  obtains e where "eol = e @ [LF]" and "e = [CR] \<or> e = []"
  using assms by (auto simp: line_end_def)

lemma parse_head_request_text:
  assumes "token m" and "token p" and "token v"
    and "list_all (\<lambda>kv. header_name (fst kv) \<and> header_value (snd kv)) hdrs"
    and "separator ws1" and "separator ws2" and "line_end eol"
  shows "parse_head (request_text eol ws1 ws2 m p v hdrs @ tail) self
         = (\<lparr>method = m, path = p, version = v,
             headers = HTTPRequest.headers self ++ map_of (rev hdrs),
             body = HTTPRequest.body self\<rparr>,
            \<lparr>rest = tail, eofbit = False, failbit = False\<rparr>)"
proof -
  from assms(7) obtain e where eol: "eol = e @ [LF]" and e: "e = [CR] \<or> e = []"
    by (rule line_end_cases)
  from e have sp: "list_all isspace e"
    by (auto simp: isspace_def)
  from e have "LF \<notin> set e"
    by auto
  with token_no_LF [OF assms(1)] token_no_LF [OF assms(2)] token_no_LF [OF assms(3)]
    separator_props(2) [OF assms(5)] separator_props(2) [OF assms(6)]
  have nl: "LF \<notin> set (m @ ws1 @ p @ ws2 @ v @ e)"
    by simp
  have t: "request_text eol ws1 ws2 m p v hdrs @ tail
      = (m @ ws1 @ p @ ws2 @ v @ e) @ LF
          # (concat (map (header_line (e @ [LF])) hdrs) @ (e @ [LF]) @ tail)"
    by (simp add: request_text_def eol)
  have g: "getline (istringstream_of (request_text eol ws1 ws2 m p v hdrs @ tail)) []
      = (m @ ws1 @ p @ ws2 @ v @ e,
         \<lparr>rest = concat (map (header_line (e @ [LF])) hdrs) @ (e @ [LF]) @ tail,
          eofbit = False, failbit = False\<rparr>)"
    unfolding t istringstream_of_def using nl by (rule getline_line)
  note rl = parse_request_line_separated [OF assms(1-3) assms(5,6) sp, of self]
  note hl = parse_headers_lines [OF assms(4) e, of tail]
  have nf: "\<not> failbit \<lparr>rest = concat (map (header_line (e @ [LF])) hdrs) @ (e @ [LF]) @ tail,
                         eofbit = False, failbit = False\<rparr>"
    by simp
  show ?thesis
    unfolding parse_head_def Let_def g prod.case if_P [OF nf] rl hl
    by simp
qed

lemma parse_head_alt:
  "parse_head s self =
     (let g = getline (istringstream_of s) [];
          self1 = (if \<not> failbit (snd g) then parse_request_line (fst g) self else self);
          ph = parse_headers (snd g) (fst g) (HTTPRequest.headers self1)
      in (HTTPRequest.headers_update (\<lambda>_. fst ph) self1, snd (snd ph)))"
  by (simp add: parse_head_def Let_def case_prod_beta)

lemma getline_keeps_invariant:
  assumes "\<not> good iss \<longrightarrow> rest iss = []"
  shows "\<not> good (snd (getline iss line)) \<longrightarrow> rest (snd (getline iss line)) = []"
  using assms by (auto simp: getline_def good_def Let_def)

lemma parse_headers_keeps_invariant:
  "(\<not> good iss \<longrightarrow> rest iss = []) \<Longrightarrow>
   \<not> good (snd (snd (parse_headers iss line hs))) \<longrightarrow> rest (snd (snd (parse_headers iss line hs))) = []"
proof (induction iss line hs rule: parse_headers.induct)
  case (1 iss line hs)
  note inv = getline_keeps_invariant [OF "1.prems", of line]
  show ?case
  proof (cases "\<not> failbit (snd (getline iss line)) \<and> fst (getline iss line) \<noteq> []
                \<and> fst (getline iss line) \<noteq> [CR]")
    case True
    with "1.IH" [OF refl True inv] show ?thesis
      by (subst (1 2) parse_headers.simps) (simp add: Let_def)
  next
    case False
    with inv show ?thesis
      by (subst (1 2) parse_headers.simps) (auto simp: Let_def)
  qed
qed

lemma parse_head_invariant:
  "\<not> good (snd (parse_head s self)) \<longrightarrow> rest (snd (parse_head s self)) = []"
proof -
  have i0: "\<not> good (istringstream_of s) \<longrightarrow> rest (istringstream_of s) = []"
    by (simp add: good_def istringstream_of_def)
  note i1 = getline_keeps_invariant [OF i0, of "[]"]
  show ?thesis
    using parse_headers_keeps_invariant [OF i1]
    by (simp add: parse_head_alt Let_def)
qed

lemma suffix_tl_dropWhile: "suffix (tl (dropWhile P xs)) xs"
proof -
  have "suffix (tl (dropWhile P xs)) (dropWhile P xs)"
    by (rule suffix_tl)
  moreover have "suffix (dropWhile P xs) xs"
    by (rule suffix_dropWhile)
  ultimately show ?thesis
    by (rule suffix_order.trans)
qed

lemma getline_rest_suffix: "suffix (rest (snd (getline iss line))) (rest iss)"
  by (auto simp: getline_def Let_def suffix_tl_dropWhile)

lemma parse_headers_rest_suffix:
  "suffix (rest (snd (snd (parse_headers iss line hs)))) (rest iss)"
proof (induction iss line hs rule: parse_headers.induct)
  case (1 iss line hs)
  note g = getline_rest_suffix [of iss line]
  show ?case
  proof (cases "\<not> failbit (snd (getline iss line)) \<and> fst (getline iss line) \<noteq> []
                \<and> fst (getline iss line) \<noteq> [CR]")
    case True
    from "1.IH" [OF refl True] g
    have "suffix (rest (snd (snd (parse_headers (snd (getline iss line))
             (strip_cr (fst (getline iss line)))
             (store_header (strip_cr (fst (getline iss line))) hs))))) (rest iss)"
      by (rule suffix_order.trans)
    with True show ?thesis
      by (subst parse_headers.simps) (simp add: Let_def)
  next
    case False
    with g show ?thesis
      by (subst parse_headers.simps) (auto simp: Let_def)
  qed
qed

lemma parse_head_rest_suffix: "suffix (rest (snd (parse_head s self))) s"
proof -
  have "suffix (rest (snd (getline (istringstream_of s) []))) s"
    using getline_rest_suffix [of "istringstream_of s" "[]"] by (simp add: istringstream_of_def)
  with parse_headers_rest_suffix show ?thesis
    unfolding parse_head_alt Let_def snd_conv by (rule suffix_order.trans)
qed

lemma parse_head_body: "HTTPRequest.body (fst (parse_head s self)) = HTTPRequest.body self"
  by (simp add: parse_head_alt parse_request_line_def Let_def case_prod_beta)

lemma parse_body_padded:
  assumes "\<not> good iss \<longrightarrow> rest iss = []"
    and "HTTPRequest.headers self ''Content-Length'' = Some v"
    and "stoi v = Inr n" and "0 \<le> n"
  shows "\<exists>r. parse_body iss self = Inr r
           \<and> HTTPRequest.body r = take (nat n) (rest iss) @ replicate (nat n - length (rest iss)) NUL
           \<and> method r = method self \<and> path r = path self
           \<and> HTTPRequest.version r = HTTPRequest.version self
           \<and> HTTPRequest.headers r = HTTPRequest.headers self"
proof (cases "good iss")
  case True
  with assms(2-4) show ?thesis
    by (simp add: parse_body_def read_def Let_def min_def)
next
  case False
  with assms show ?thesis
    by (simp add: parse_body_def read_def Let_def)
qed

lemma parse_no_content_length:
  assumes "HTTPRequest.headers (fst (parse_head s self)) ''Content-Length'' = None"
  shows "parse s self = Inr (fst (parse_head s self))"
  using assms by (simp add: parse_def parse_body_def case_prod_beta)

lemma parse_with_content_length:
  assumes "HTTPRequest.headers (fst (parse_head s self)) ''Content-Length'' = Some v"
    and "stoi v = Inr n" and "0 \<le> n"
  shows "\<exists>r. parse s self = Inr r
           \<and> HTTPRequest.body r = take (nat n) (rest (snd (parse_head s self)))
                @ replicate (nat n - length (rest (snd (parse_head s self)))) NUL
           \<and> method r = method (fst (parse_head s self))
           \<and> path r = path (fst (parse_head s self))
           \<and> HTTPRequest.version r = HTTPRequest.version (fst (parse_head s self))
           \<and> HTTPRequest.headers r = HTTPRequest.headers (fst (parse_head s self))"
  using parse_body_padded [OF parse_head_invariant assms]
  by (simp add: parse_def case_prod_beta)

lemma parse_stoi_fails:
  assumes "HTTPRequest.headers (fst (parse_head s self)) ''Content-Length'' = Some v"
    and "stoi v = Inl e"
  shows "parse s self = Inl e"
  using assms by (simp add: parse_def parse_body_def case_prod_beta)

lemma text1:
  "request_text CRLF '' '' '' '' ''GET'' ''/index.html'' ''HTTP/1.1''
      [(''Host'', ''a''), (''host'', ''b''), (''Host'', ''c''), (''Content-Length'', ''0'')] @ []
   = ''GET /index.html HTTP/1.1'' @ CRLF @ ''Host: a'' @ CRLF @ ''host: b'' @ CRLF
     @ ''Host: c'' @ CRLF @ ''Content-Length: 0'' @ CRLF @ CRLF"
  by (simp add: request_text_def header_line_def)

lemma sep_space: "separator '' ''"
  by (simp add: separator_def isspace_def)

lemma crlf_end: "line_end CRLF"
  by (simp add: line_end_def)

lemma tokens_ok:
  "token ''GET''" "token ''POST''" "token ''/''" "token ''/index.html''" "token ''HTTP/1.1''" "token ''/foo/''" "token ''/foo?q=x''" "token ''/foo''"
  by (simp_all add: token_def isspace_def)

lemma stoi_examples:
  "stoi ''0'' = Inr 0" "stoi ''3'' = Inr 3" "stoi ''5'' = Inr 5" "stoi ''abc'' = Inl InvalidArgument"
  by (simp_all add: stoi_def isspace_def isdigit_def digits_value_def digit_val_def Let_def)

lemma text2:
  "''POST / HTTP/1.1'' @ CRLF @ ''Content-Length: 5'' @ CRLF @ CRLF @ ''ab''
   = request_text CRLF '' '' '' '' ''POST'' ''/'' ''HTTP/1.1'' [(''Content-Length'', ''5'')] @ ''ab''"
  by (simp add: request_text_def header_line_def)

lemma head2:
  "parse_head (''POST / HTTP/1.1'' @ CRLF @ ''Content-Length: 5'' @ CRLF @ CRLF @ ''ab'') HTTPRequest_new
   = (\<lparr>method = ''POST'', path = ''/'', version = ''HTTP/1.1'',
       headers = [''Content-Length'' \<mapsto> ''5''], body = []\<rparr>,
      \<lparr>rest = ''ab'', eofbit = False, failbit = False\<rparr>)"
proof -
  have h: "list_all (\<lambda>kv. header_name (fst kv) \<and> header_value (snd kv)) [(''Content-Length'', ''5'')]"
    by (simp add: header_name_def header_value_def)
  show ?thesis
    unfolding text2
    by (subst parse_head_request_text [OF tokens_ok(2) tokens_ok(3) tokens_ok(5) h sep_space sep_space crlf_end])
       (simp add: HTTPRequest_new_def)
qed

lemma head3:
  "parse_head (''POST / HTTP/1.1'' @ CRLF @ ''Content-Length: 3'' @ CRLF @ CRLF @ ''abcdef'') HTTPRequest_new
   = (\<lparr>method = ''POST'', path = ''/'', version = ''HTTP/1.1'',
       headers = [''Content-Length'' \<mapsto> ''3''], body = []\<rparr>,
      \<lparr>rest = ''abcdef'', eofbit = False, failbit = False\<rparr>)"
proof -
  have t: "''POST / HTTP/1.1'' @ CRLF @ ''Content-Length: 3'' @ CRLF @ CRLF @ ''abcdef''
   = request_text CRLF '' '' '' '' ''POST'' ''/'' ''HTTP/1.1'' [(''Content-Length'', ''3'')] @ ''abcdef''"
    by (simp add: request_text_def header_line_def)
  have h: "list_all (\<lambda>kv. header_name (fst kv) \<and> header_value (snd kv)) [(''Content-Length'', ''3'')]"
    by (simp add: header_name_def header_value_def)
  show ?thesis
    unfolding t
    by (subst parse_head_request_text [OF tokens_ok(2) tokens_ok(3) tokens_ok(5) h sep_space sep_space crlf_end])
       (simp add: HTTPRequest_new_def)
qed

lemma head4:
  "parse_head (''GET / HTTP/1.1'' @ CRLF @ CRLF @ ''xyz'') HTTPRequest_new
   = (\<lparr>method = ''GET'', path = ''/'', version = ''HTTP/1.1'', headers = Map.empty, body = []\<rparr>,
      \<lparr>rest = ''xyz'', eofbit = False, failbit = False\<rparr>)"
proof -
  have t: "''GET / HTTP/1.1'' @ CRLF @ CRLF @ ''xyz''
   = request_text CRLF '' '' '' '' ''GET'' ''/'' ''HTTP/1.1'' [] @ ''xyz''"
    by (simp add: request_text_def header_line_def)
  have h: "list_all (\<lambda>kv. header_name (fst kv) \<and> header_value (snd kv)) []"
    by simp
  show ?thesis
    unfolding t
    by (subst parse_head_request_text [OF tokens_ok(1) tokens_ok(3) tokens_ok(5) h sep_space sep_space crlf_end])
       (simp add: HTTPRequest_new_def)
qed

text \<open>
  Claim C1, as amended. For a request text made of a request line of three tokens
  separated by white space, header lines \<open>Name: value\<close> and a blank line, the lines
  ended by CRLF or by a bare line feed (whatever bytes follow the blank line),
  \<open>HTTPRequest::parse\<close> on a new request returns a request whose method, path and version
  are the three tokens and whose header table maps each name, compared byte for byte, to
  the value of its last line, provided that the last \<open>Content-Length\<close> value, if there
  is one, is accepted by \<open>std::stoi\<close> and is not negative. \<open>map_of (rev hdrs)\<close> is the
  table that looks a name up from the last line backwards.
\<close>
theorem parse_recovers_request_text:
  assumes "token m" and "token p" and "token v"
    and "list_all (\<lambda>kv. header_name (fst kv) \<and> header_value (snd kv)) hdrs"
    and "separator ws1" and "separator ws2" and "line_end eol"
    and "case map_of (rev hdrs) ''Content-Length'' of
           None \<Rightarrow> True | Some x \<Rightarrow> (\<exists>n. stoi x = Inr n \<and> 0 \<le> n)"
  shows "\<exists>r. parse (request_text eol ws1 ws2 m p v hdrs @ tail) HTTPRequest_new = Inr r
           \<and> method r = m \<and> path r = p \<and> HTTPRequest.version r = v
           \<and> HTTPRequest.headers r = map_of (rev hdrs)"
proof -
  let ?s = "request_text eol ws1 ws2 m p v hdrs @ tail"
  have hd: "fst (parse_head ?s HTTPRequest_new)
      = \<lparr>method = m, path = p, version = v, headers = map_of (rev hdrs), body = []\<rparr>"
    by (simp add: parse_head_request_text [OF assms(1-7)] HTTPRequest_new_def)
  show ?thesis
  proof (cases "map_of (rev hdrs) ''Content-Length''")
    case None
    then have "HTTPRequest.headers (fst (parse_head ?s HTTPRequest_new)) ''Content-Length'' = None"
      by (simp add: hd)
    then have "parse ?s HTTPRequest_new = Inr (fst (parse_head ?s HTTPRequest_new))"
      by (rule parse_no_content_length)
    then show ?thesis
      by (simp add: hd)
  next
    case (Some x)
    with assms(8) obtain n where n: "stoi x = Inr n" "0 \<le> n"
      by auto
    from Some have "HTTPRequest.headers (fst (parse_head ?s HTTPRequest_new)) ''Content-Length'' = Some x"
      by (simp add: hd)
    from parse_with_content_length [OF this n] show ?thesis
      by (auto simp: hd)
  qed
qed

theorem parse_recovers_request_text_witness:
  "(\<exists>r. parse (''GET /index.html HTTP/1.1'' @ CRLF @ ''Host: a'' @ CRLF @ ''host: b'' @ CRLF
              @ ''Host: c'' @ CRLF @ ''Content-Length: 0'' @ CRLF @ CRLF) HTTPRequest_new = Inr r
       \<and> method r = ''GET'' \<and> path r = ''/index.html'' \<and> HTTPRequest.version r = ''HTTP/1.1''
       \<and> HTTPRequest.headers r ''Host'' = Some ''c''
       \<and> HTTPRequest.headers r ''host'' = Some ''b''
       \<and> HTTPRequest.headers r ''Content-Length'' = Some ''0''
       \<and> HTTPRequest.headers r ''HOST'' = None)
   \<and> (\<exists>r. parse (''GET'' @ [TAB] @ ''/'' @ ''  '' @ ''HTTP/1.1'' @ [LF] @ ''Accept: */*'' @ [LF]
              @ [LF]) HTTPRequest_new = Inr r
       \<and> method r = ''GET'' \<and> path r = ''/'' \<and> HTTPRequest.version r = ''HTTP/1.1''
       \<and> HTTPRequest.headers r ''Accept'' = Some ''*/*'')"
proof -
  let ?hdrs = "[(''Host'', ''a''), (''host'', ''b''), (''Host'', ''c''), (''Content-Length'', ''0'')]"
  have h: "list_all (\<lambda>kv. header_name (fst kv) \<and> header_value (snd kv)) ?hdrs"
    by (simp add: header_name_def header_value_def)
  have c: "case map_of (rev ?hdrs) ''Content-Length'' of
           None \<Rightarrow> True | Some x \<Rightarrow> (\<exists>n. stoi x = Inr n \<and> 0 \<le> n)"
    by (simp add: stoi_examples)
  from parse_recovers_request_text
    [OF tokens_ok(1) tokens_ok(4) tokens_ok(5) h sep_space sep_space crlf_end c, of "[]"]
  obtain r where r: "parse (request_text CRLF '' '' '' '' ''GET'' ''/index.html'' ''HTTP/1.1'' ?hdrs @ []) HTTPRequest_new = Inr r"
    "method r = ''GET''" "path r = ''/index.html''" "HTTPRequest.version r = ''HTTP/1.1''"
    "HTTPRequest.headers r = map_of (rev ?hdrs)"
    by (elim exE conjE)
  have "HTTPRequest.headers r ''Host'' = Some ''c''" "HTTPRequest.headers r ''host'' = Some ''b''"
    "HTTPRequest.headers r ''Content-Length'' = Some ''0''" "HTTPRequest.headers r ''HOST'' = None"
    by (simp_all add: r(5))
  with r(1-4) have 1: "\<exists>r. parse (''GET /index.html HTTP/1.1'' @ CRLF @ ''Host: a'' @ CRLF @ ''host: b'' @ CRLF
              @ ''Host: c'' @ CRLF @ ''Content-Length: 0'' @ CRLF @ CRLF) HTTPRequest_new = Inr r
       \<and> method r = ''GET'' \<and> path r = ''/index.html'' \<and> HTTPRequest.version r = ''HTTP/1.1''
       \<and> HTTPRequest.headers r ''Host'' = Some ''c''
       \<and> HTTPRequest.headers r ''host'' = Some ''b''
       \<and> HTTPRequest.headers r ''Content-Length'' = Some ''0''
       \<and> HTTPRequest.headers r ''HOST'' = None"
    unfolding text1 by (intro exI [of _ r] conjI)
  let ?hdrs2 = "[(''Accept'', ''*/*'')]"
  have h2: "list_all (\<lambda>kv. header_name (fst kv) \<and> header_value (snd kv)) ?hdrs2"
    by (simp add: header_name_def header_value_def)
  have c2: "case map_of (rev ?hdrs2) ''Content-Length'' of
           None \<Rightarrow> True | Some x \<Rightarrow> (\<exists>n. stoi x = Inr n \<and> 0 \<le> n)"
    by simp
  have s1: "separator [TAB]" and s2: "separator ''  ''"
    by (simp_all add: separator_def isspace_def)
  have le: "line_end [LF]"
    by (simp add: line_end_def)
  have t2: "request_text [LF] [TAB] ''  '' ''GET'' ''/'' ''HTTP/1.1'' ?hdrs2 @ []
      = ''GET'' @ [TAB] @ ''/'' @ ''  '' @ ''HTTP/1.1'' @ [LF] @ ''Accept: */*'' @ [LF] @ [LF]"
    by (simp add: request_text_def header_line_def)
  from parse_recovers_request_text
    [OF tokens_ok(1) tokens_ok(3) tokens_ok(5) h2 s1 s2 le c2, of "[]"]
  obtain r2 where r2: "parse (request_text [LF] [TAB] ''  '' ''GET'' ''/'' ''HTTP/1.1'' ?hdrs2 @ []) HTTPRequest_new = Inr r2"
    "method r2 = ''GET''" "path r2 = ''/''" "HTTPRequest.version r2 = ''HTTP/1.1''"
    "HTTPRequest.headers r2 = map_of (rev ?hdrs2)"
    by (elim exE conjE)
  have "HTTPRequest.headers r2 ''Accept'' = Some ''*/*''"
    by (simp add: r2(5))
  with r2(1-4) have 2: "\<exists>r. parse (''GET'' @ [TAB] @ ''/'' @ ''  '' @ ''HTTP/1.1'' @ [LF] @ ''Accept: */*'' @ [LF]
              @ [LF]) HTTPRequest_new = Inr r
       \<and> method r = ''GET'' \<and> path r = ''/'' \<and> HTTPRequest.version r = ''HTTP/1.1''
       \<and> HTTPRequest.headers r ''Accept'' = Some ''*/*''"
    unfolding t2 by (intro exI [of _ r2] conjI)
  from 1 2 show ?thesis
    by (rule conjI)
qed

text \<open>
  The claim as the spec states it has no condition on \<open>Content-Length\<close>: on this text
  \<open>parse\<close> throws and returns no request.
\<close>
theorem parse_non_numeric_content_length_counterexample:
  "parse (''GET / HTTP/1.1'' @ CRLF @ ''Content-Length: abc'' @ CRLF @ CRLF) HTTPRequest_new
   = Inl InvalidArgument"
proof -
  have t: "''GET / HTTP/1.1'' @ CRLF @ ''Content-Length: abc'' @ CRLF @ CRLF
      = request_text CRLF '' '' '' '' ''GET'' ''/'' ''HTTP/1.1'' [(''Content-Length'', ''abc'')] @ []"
    by (simp add: request_text_def header_line_def)
  have h: "list_all (\<lambda>kv. header_name (fst kv) \<and> header_value (snd kv)) [(''Content-Length'', ''abc'')]"
    by (simp add: header_name_def header_value_def)
  have "HTTPRequest.headers (fst (parse_head (request_text CRLF '' '' '' '' ''GET'' ''/'' ''HTTP/1.1'' [(''Content-Length'', ''abc'')] @ []) HTTPRequest_new)) ''Content-Length'' = Some ''abc''"
    by (subst parse_head_request_text [OF tokens_ok(1) tokens_ok(3) tokens_ok(5) h sep_space sep_space crlf_end]) simp
  then show ?thesis
    unfolding t using stoi_examples(4) by (rule parse_stoi_fails)
qed

text \<open>
  Claim C2, as amended. When the headers declare \<open>Content-Length: N\<close> and fewer than
  \<open>N\<close> bytes remain after the header block, \<open>parse\<close> raises no error and reads
  nothing but bytes of the input (what remains is a suffix of the text), and the body has
  exactly \<open>N\<close> bytes: the bytes that remain followed by zero bytes up to length \<open>N\<close>.
\<close>
theorem parse_body_zero_padded:
  assumes "HTTPRequest.headers (fst (parse_head s HTTPRequest_new)) ''Content-Length'' = Some v"
    and "stoi v = Inr n"
    and "length (rest (snd (parse_head s HTTPRequest_new))) < nat n"
  shows "\<exists>r. parse s HTTPRequest_new = Inr r
           \<and> HTTPRequest.body r = rest (snd (parse_head s HTTPRequest_new))
                @ replicate (nat n - length (rest (snd (parse_head s HTTPRequest_new)))) NUL
           \<and> length (HTTPRequest.body r) = nat n
           \<and> suffix (rest (snd (parse_head s HTTPRequest_new))) s"
proof -
  from assms(3) have n: "0 \<le> n"
    by simp
  from parse_with_content_length [OF assms(1,2) n] assms(3) parse_head_rest_suffix [of s HTTPRequest_new]
  show ?thesis
    by auto
qed

theorem parse_body_zero_padded_witness:
  "\<exists>r. parse (''POST / HTTP/1.1'' @ CRLF @ ''Content-Length: 5'' @ CRLF @ CRLF @ ''ab'') HTTPRequest_new = Inr r
       \<and> HTTPRequest.body r = ''ab'' @ replicate 3 NUL
       \<and> length (HTTPRequest.body r) = 5"
proof -
  let ?s = "''POST / HTTP/1.1'' @ CRLF @ ''Content-Length: 5'' @ CRLF @ CRLF @ ''ab''"
  have a: "HTTPRequest.headers (fst (parse_head ?s HTTPRequest_new)) ''Content-Length'' = Some ''5''"
    unfolding head2 by simp
  have b: "length (rest (snd (parse_head ?s HTTPRequest_new))) < nat 5"
    unfolding head2 by simp
  from parse_body_zero_padded [OF a stoi_examples(3) b]
  obtain r where "parse ?s HTTPRequest_new = Inr r"
    and "HTTPRequest.body r = rest (snd (parse_head ?s HTTPRequest_new))
                @ replicate (nat 5 - length (rest (snd (parse_head ?s HTTPRequest_new)))) NUL"
    and "length (HTTPRequest.body r) = nat 5"
    by blast
  then have "parse ?s HTTPRequest_new = Inr r \<and> HTTPRequest.body r = ''ab'' @ replicate 3 NUL
       \<and> length (HTTPRequest.body r) = 5"
    unfolding head2 by simp
  then show ?thesis
    by (rule exI [of _ r])
qed

text \<open>
  The claim as the spec states it says the body is clamped to the available bytes,
  without padding: with two bytes available and five declared the body is the two bytes
  and three zero bytes.
\<close>
theorem parse_body_clamp_counterexample:
  "rest (snd (parse_head (''POST / HTTP/1.1'' @ CRLF @ ''Content-Length: 5'' @ CRLF @ CRLF @ ''ab'')
            HTTPRequest_new)) = ''ab''
   \<and> map_sum id HTTPRequest.body
        (parse (''POST / HTTP/1.1'' @ CRLF @ ''Content-Length: 5'' @ CRLF @ CRLF @ ''ab'') HTTPRequest_new)
      = Inr [CHR ''a'', CHR ''b'', NUL, NUL, NUL]"
proof -
  have "parse_body \<lparr>rest = ''ab'', eofbit = False, failbit = False\<rparr>
          \<lparr>method = ''POST'', path = ''/'', version = ''HTTP/1.1'',
           headers = [''Content-Length'' \<mapsto> ''5''], body = []\<rparr>
        = Inr \<lparr>method = ''POST'', path = ''/'', version = ''HTTP/1.1'',
           headers = [''Content-Length'' \<mapsto> ''5''], body = [CHR ''a'', CHR ''b'', NUL, NUL, NUL]\<rparr>"
    by (simp add: parse_body_def stoi_examples read_def good_def Let_def numeral_eq_Suc)
  then show ?thesis
    unfolding parse_def head2 by simp
qed

text \<open>
  Claim C4. When the headers that \<open>parse\<close> has stored declare \<open>Content-Length: N\<close>
  (a value \<open>std::stoi\<close> reads as \<open>N \<ge> 0\<close>) and at least \<open>N\<close> bytes remain after
  the header block, the body is exactly the first \<open>N\<close> of them. With no
  \<open>Content-Length\<close> header the body step returns the request as the header loop left
  it, reading nothing, and the body is empty. What remains after the header block is a
  suffix of the input; for a request text as in C1 the header block is the text up to
  and including the blank line, and what remains is what follows it.
\<close>
theorem parse_body_exact:
  "(\<forall>v n. HTTPRequest.headers (fst (parse_head s HTTPRequest_new)) ''Content-Length'' = Some v
          \<and> stoi v = Inr n \<and> 0 \<le> n
          \<and> nat n \<le> length (rest (snd (parse_head s HTTPRequest_new)))
        \<longrightarrow> (\<exists>r. parse s HTTPRequest_new = Inr r
               \<and> HTTPRequest.body r = take (nat n) (rest (snd (parse_head s HTTPRequest_new)))
               \<and> length (HTTPRequest.body r) = nat n))
   \<and> (HTTPRequest.headers (fst (parse_head s HTTPRequest_new)) ''Content-Length'' = None
        \<longrightarrow> parse s HTTPRequest_new = Inr (fst (parse_head s HTTPRequest_new))
          \<and> HTTPRequest.body (fst (parse_head s HTTPRequest_new)) = [])
   \<and> suffix (rest (snd (parse_head s HTTPRequest_new))) s
   \<and> (\<forall>eol ws1 ws2 m p ver hdrs tail.
          token m \<and> token p \<and> token ver
          \<and> list_all (\<lambda>kv. header_name (fst kv) \<and> header_value (snd kv)) hdrs
          \<and> separator ws1 \<and> separator ws2 \<and> line_end eol
        \<longrightarrow> parse_head (request_text eol ws1 ws2 m p ver hdrs @ tail) HTTPRequest_new
            = (\<lparr>method = m, path = p, version = ver, headers = map_of (rev hdrs), body = []\<rparr>,
               \<lparr>rest = tail, eofbit = False, failbit = False\<rparr>))"
proof (intro conjI allI impI)
  fix v n
  assume a: "HTTPRequest.headers (fst (parse_head s HTTPRequest_new)) ''Content-Length'' = Some v
          \<and> stoi v = Inr n \<and> 0 \<le> n
          \<and> nat n \<le> length (rest (snd (parse_head s HTTPRequest_new)))"
  then have "HTTPRequest.headers (fst (parse_head s HTTPRequest_new)) ''Content-Length'' = Some v"
    and "stoi v = Inr n" and "0 \<le> n"
    by simp_all
  from parse_with_content_length [OF this] a
  show "\<exists>r. parse s HTTPRequest_new = Inr r
               \<and> HTTPRequest.body r = take (nat n) (rest (snd (parse_head s HTTPRequest_new)))
               \<and> length (HTTPRequest.body r) = nat n"
    by auto
next
  assume "HTTPRequest.headers (fst (parse_head s HTTPRequest_new)) ''Content-Length'' = None"
  then show "parse s HTTPRequest_new = Inr (fst (parse_head s HTTPRequest_new))"
    by (rule parse_no_content_length)
next
  show "HTTPRequest.body (fst (parse_head s HTTPRequest_new)) = []"
    by (simp add: parse_head_body HTTPRequest_new_def)
next
  show "suffix (rest (snd (parse_head s HTTPRequest_new))) s"
    by (rule parse_head_rest_suffix)
next
  fix eol ws1 ws2 m p ver hdrs tail
  assume "token m \<and> token p \<and> token ver
          \<and> list_all (\<lambda>kv. header_name (fst kv) \<and> header_value (snd kv)) hdrs
          \<and> separator ws1 \<and> separator ws2 \<and> line_end eol"
  then have "token m" "token p" "token ver"
    "list_all (\<lambda>kv. header_name (fst kv) \<and> header_value (snd kv)) hdrs"
    "separator ws1" "separator ws2" "line_end eol"
    by simp_all
  from parse_head_request_text [OF this, of tail HTTPRequest_new]
  show "parse_head (request_text eol ws1 ws2 m p ver hdrs @ tail) HTTPRequest_new
            = (\<lparr>method = m, path = p, version = ver, headers = map_of (rev hdrs), body = []\<rparr>,
               \<lparr>rest = tail, eofbit = False, failbit = False\<rparr>)"
    by (simp add: HTTPRequest_new_def)
qed

theorem parse_body_exact_witness:
  "(\<exists>r. parse (''POST / HTTP/1.1'' @ CRLF @ ''Content-Length: 3'' @ CRLF @ CRLF @ ''abcdef'')
          HTTPRequest_new = Inr r
        \<and> HTTPRequest.body r = ''abc'')
   \<and> (\<exists>r. parse (''GET / HTTP/1.1'' @ CRLF @ CRLF @ ''xyz'') HTTPRequest_new = Inr r
        \<and> HTTPRequest.body r = [])
   \<and> parse_head (request_text CRLF '' '' '' '' ''POST'' ''/'' ''HTTP/1.1'' [(''Content-Length'', ''3'')] @ ''abcdef'')
        HTTPRequest_new
      = (\<lparr>method = ''POST'', path = ''/'', version = ''HTTP/1.1'',
          headers = map_of (rev [(''Content-Length'', ''3'')]), body = []\<rparr>,
         \<lparr>rest = ''abcdef'', eofbit = False, failbit = False\<rparr>)"
proof -
  let ?s = "''POST / HTTP/1.1'' @ CRLF @ ''Content-Length: 3'' @ CRLF @ CRLF @ ''abcdef''"
  let ?t = "''GET / HTTP/1.1'' @ CRLF @ CRLF @ ''xyz''"
  have a: "HTTPRequest.headers (fst (parse_head ?s HTTPRequest_new)) ''Content-Length'' = Some ''3''
          \<and> stoi ''3'' = Inr 3 \<and> (0::int) \<le> 3
          \<and> nat 3 \<le> length (rest (snd (parse_head ?s HTTPRequest_new)))"
    unfolding head3 by (simp add: stoi_examples)
  note e = parse_body_exact [of ?s, THEN conjunct1, rule_format, OF a]
  then obtain r where r1: "parse ?s HTTPRequest_new = Inr r"
    and r2: "HTTPRequest.body r = take (nat 3) (rest (snd (parse_head ?s HTTPRequest_new)))"
    by (elim exE conjE)
  have "take (nat 3) (rest (snd (parse_head ?s HTTPRequest_new))) = ''abc''"
    unfolding head3 by (simp add: numeral_eq_Suc)
  with r1 r2 have "parse ?s HTTPRequest_new = Inr r \<and> HTTPRequest.body r = ''abc''"
    by simp
  then have 1: "\<exists>r. parse ?s HTTPRequest_new = Inr r \<and> HTTPRequest.body r = ''abc''"
    by (rule exI [of _ r])
  have b: "HTTPRequest.headers (fst (parse_head ?t HTTPRequest_new)) ''Content-Length'' = None"
    unfolding head4 by simp
  note f = parse_body_exact [of ?t, THEN conjunct2, THEN conjunct1, rule_format, OF b]
  have 2: "\<exists>r. parse ?t HTTPRequest_new = Inr r \<and> HTTPRequest.body r = []"
    by (rule exI [of _ "fst (parse_head ?t HTTPRequest_new)"]) (rule f)
  have k: "token ''POST'' \<and> token ''/'' \<and> token ''HTTP/1.1''
      \<and> list_all (\<lambda>kv. header_name (fst kv) \<and> header_value (snd kv)) [(''Content-Length'', ''3'')]
      \<and> separator '' '' \<and> separator '' '' \<and> line_end CRLF"
    by (simp add: tokens_ok header_name_def header_value_def sep_space crlf_end)
  note 3 = parse_body_exact [of ?s, THEN conjunct2, THEN conjunct2, THEN conjunct2, rule_format,
      of "''POST''" "''/''" "''HTTP/1.1''" "[(''Content-Length'', ''3'')]" "'' ''" "'' ''" CRLF
         "''abcdef''", OF k]
  from 1 2 3 show ?thesis
    by (intro conjI)
qed

section \<open>Properties of the server\<close>

lemma hasExtension_suffix: "hasExtension str ext \<longleftrightarrow> suffix ext str"
proof
  assume h: "hasExtension str ext"
  then have "drop (length str - length ext) str = ext"
    by (simp add: hasExtension_def split: if_splits)
  then have "str = take (length str - length ext) str @ ext"
    by (metis append_take_drop_id)
  then show "suffix ext str"
    unfolding suffix_def by blast
next
  assume "suffix ext str"
  then obtain pre where "str = pre @ ext"
    unfolding suffix_def by blast
  then show "hasExtension str ext"
    by (simp add: hasExtension_def)
qed

lemma content_type_of_stem:
  "content_type_of (stem @ ''.html'') = ''text/html''"
  "content_type_of (stem @ ''.htm'') = ''text/html''"
  "content_type_of (stem @ ''.css'') = ''text/css''"
  "content_type_of (stem @ ''.js'') = ''application/javascript''"
  "content_type_of (stem @ ''.json'') = ''application/json''"
  "content_type_of (stem @ ''.png'') = ''image/png''"
  "content_type_of (stem @ ''.jpg'') = ''image/jpeg''"
  "content_type_of (stem @ ''.jpeg'') = ''image/jpeg''"
  "content_type_of (stem @ ''.gif'') = ''image/gif''"
  by (simp_all add: content_type_of_def hasExtension_suffix suffix_to_prefix)

lemma content_type_of_other:
  "\<not> suffix ''.html'' p \<and> \<not> suffix ''.htm'' p \<and> \<not> suffix ''.css'' p \<and> \<not> suffix ''.js'' p
     \<and> \<not> suffix ''.json'' p \<and> \<not> suffix ''.png'' p \<and> \<not> suffix ''.jpg'' p
     \<and> \<not> suffix ''.jpeg'' p \<and> \<not> suffix ''.gif'' p
   \<Longrightarrow> content_type_of p = ''text/plain''"
  by (simp add: content_type_of_def hasExtension_suffix)

lemma content_type_table:
  "(suffix ''.html'' p \<or> suffix ''.htm'' p \<longrightarrow> content_type_of p = ''text/html'')
   \<and> (suffix ''.css'' p \<longrightarrow> content_type_of p = ''text/css'')
   \<and> (suffix ''.js'' p \<longrightarrow> content_type_of p = ''application/javascript'')
   \<and> (suffix ''.json'' p \<longrightarrow> content_type_of p = ''application/json'')
   \<and> (suffix ''.png'' p \<longrightarrow> content_type_of p = ''image/png'')
   \<and> (suffix ''.jpg'' p \<or> suffix ''.jpeg'' p \<longrightarrow> content_type_of p = ''image/jpeg'')
   \<and> (suffix ''.gif'' p \<longrightarrow> content_type_of p = ''image/gif'')
   \<and> (\<not> suffix ''.html'' p \<and> \<not> suffix ''.htm'' p \<and> \<not> suffix ''.css'' p \<and> \<not> suffix ''.js'' p
        \<and> \<not> suffix ''.json'' p \<and> \<not> suffix ''.png'' p \<and> \<not> suffix ''.jpg'' p
        \<and> \<not> suffix ''.jpeg'' p \<and> \<not> suffix ''.gif'' p
      \<longrightarrow> content_type_of p = ''text/plain'')"
  using content_type_of_other [of p]
  by (auto simp: suffix_def content_type_of_stem simp del: append.simps)

lemma setContent_fields:
  "body (setContent c t r) = c"
  "version (setContent c t r) = version r"
  "status_code (setContent c t r) = status_code r"
  "status_message (setContent c t r) = status_message r"
  "headers (setContent c t r) = (headers r)(''Content-Type'' \<mapsto> t, ''Content-Length'' \<mapsto> to_string (length c))"
  by (simp_all add: setContent_def Let_def)

lemma read_request_Incoming:
  "read_request (Incoming s) = (int (length (take 8191 s)), take 8191 s)"
  by (simp add: read_request_def recv_def buffer_size_def min_def)

lemma read_request_RecvError: "read_request RecvError = (- 1, [])"
  by (simp add: read_request_def recv_def)

lemma read_request_bound: "fst (read_request inp) \<le> 8191"
  by (cases inp) (simp_all add: read_request_Incoming read_request_RecvError)

lemma handle_connection_nothing_read:
  "fst (read_request inp) \<le> 0 \<Longrightarrow> handle_connection iter rts c inp fs = ([CloseSocket c], None)"
  by (simp add: handle_connection_def case_prod_beta)

lemma handle_connection_truncates:
  "handle_connection iter rts c (Incoming s) fs
   = handle_connection iter rts c (Incoming (take 8191 s)) fs"
  by (simp add: handle_connection_def read_request_Incoming)

lemma route_request_resolved:
  "rts (path request) = Some h \<Longrightarrow> route_request rts fs request = h fs request HTTPResponse_new"
  by (simp add: route_request_def)

lemma route_request_unresolved:
  "rts (path request) = None \<Longrightarrow>
   route_request rts fs request
   = Inr (setContent not_found_html ''text/html''
            (HTTPResponse_new\<lparr>status_code := 404, status_message := ''Not Found''\<rparr>))"
  by (simp add: route_request_def)

lemma handle_connection_routed:
  assumes "read_request inp = (n, s)" and "0 < n" and "parse s HTTPRequest_new = Inr request"
    and "route_request rts fs request = Inr res"
  shows "handle_connection iter rts c inp fs = ([Send c (toString iter res), CloseSocket c], None)"
  using assms by (simp add: handle_connection_def)

lemma head_foo:
  "parse_head (''GET /foo/ HTTP/1.1'' @ CRLF @ CRLF) HTTPRequest_new
   = (\<lparr>method = ''GET'', path = ''/foo/'', version = ''HTTP/1.1'', headers = Map.empty, body = []\<rparr>,
      \<lparr>rest = [], eofbit = False, failbit = False\<rparr>)"
proof -
  have t: "''GET /foo/ HTTP/1.1'' @ CRLF @ CRLF = request_text CRLF '' '' '' '' ''GET'' ''/foo/'' ''HTTP/1.1'' [] @ []"
    by (simp add: request_text_def header_line_def)
  have h: "list_all (\<lambda>kv. header_name (fst kv) \<and> header_value (snd kv)) []"
    by simp
  show ?thesis
    unfolding t
    by (subst parse_head_request_text [OF tokens_ok(1) tokens_ok(6) tokens_ok(5) h sep_space sep_space crlf_end])
       (simp add: HTTPRequest_new_def)
qed

lemma parse_foo:
  "parse (''GET /foo/ HTTP/1.1'' @ CRLF @ CRLF) HTTPRequest_new
   = Inr \<lparr>method = ''GET'', path = ''/foo/'', version = ''HTTP/1.1'', headers = Map.empty, body = []\<rparr>"
proof -
  have "HTTPRequest.headers (fst (parse_head (''GET /foo/ HTTP/1.1'' @ CRLF @ CRLF) HTTPRequest_new))
          ''Content-Length'' = None"
    unfolding head_foo by simp
  then have "parse (''GET /foo/ HTTP/1.1'' @ CRLF @ CRLF) HTTPRequest_new
      = Inr (fst (parse_head (''GET /foo/ HTTP/1.1'' @ CRLF @ CRLF) HTTPRequest_new))"
    by (rule parse_no_content_length)
  then show ?thesis
    unfolding head_foo by simp
qed

lemma read_foo:
  "read_request (Incoming (''GET /foo/ HTTP/1.1'' @ CRLF @ CRLF))
   = (22, ''GET /foo/ HTTP/1.1'' @ CRLF @ CRLF)"
  by (simp add: read_request_Incoming)

lemma accept_loop_append:
  "accept_loop iter rts (xs @ ys)
   = (case accept_loop iter rts xs of
        (effs, Some e) \<Rightarrow> (effs, Some e)
      | (effs, None) \<Rightarrow> (let (effs', r) = accept_loop iter rts ys in (effs @ effs', r)))"
proof (induction iter rts xs rule: accept_loop.induct)
  case (1 iter rts)
  then show ?case by (simp add: case_prod_beta)
next
  case (2 iter rts rs)
  then show ?case by simp
next
  case (3 iter rts client_socket inp fs rs)
  then show ?case
    by (cases "handle_connection iter rts client_socket inp fs")
       (auto simp: case_prod_beta split: option.splits)
qed

lemma handle_connection_parse_fails:
  assumes "read_request inp = (n, s)" and "0 < n" and "parse s HTTPRequest_new = Inl e"
  shows "handle_connection iter rts c inp fs = ([], Some e)"
  using assms by (simp add: handle_connection_def)

lemma accept_loop_stops:
  assumes "accept_loop iter rts before = (effs0, None)"
    and "handle_connection iter rts c inp fs = (effs1, Some e)"
  shows "accept_loop iter rts (before @ Accepted c inp fs # later) = (effs0 @ effs1, Some e)"
  using assms by (simp add: accept_loop_append)

lemma start_stops:
  assumes "accept_loop iter (routes srv) rs = (effs, Some e)"
  shows "start iter (Listening fd) rs srv
         = (effs @ [CloseSocket fd], srv\<lparr>server_socket := None, running := True\<rparr>, Returned e)"
  using assms by (simp add: start_def initializeSocket_def close_server_socket_def)

lemma head_bad_length:
  "HTTPRequest.headers
     (fst (parse_head (''GET / HTTP/1.1'' @ CRLF @ ''Content-Length: abc'' @ CRLF @ CRLF)
             HTTPRequest_new)) ''Content-Length'' = Some ''abc''"
proof -
  have t: "''GET / HTTP/1.1'' @ CRLF @ ''Content-Length: abc'' @ CRLF @ CRLF
      = request_text CRLF '' '' '' '' ''GET'' ''/'' ''HTTP/1.1'' [(''Content-Length'', ''abc'')] @ []"
    by (simp add: request_text_def header_line_def)
  have h: "list_all (\<lambda>kv. header_name (fst kv) \<and> header_value (snd kv)) [(''Content-Length'', ''abc'')]"
    by (simp add: header_name_def header_value_def)
  show ?thesis
    unfolding t
    by (subst parse_head_request_text [OF tokens_ok(1) tokens_ok(3) tokens_ok(5) h sep_space sep_space crlf_end]) simp
qed

lemma read_bad_length:
  "read_request (Incoming (''GET / HTTP/1.1'' @ CRLF @ ''Content-Length: abc'' @ CRLF @ CRLF))
   = (39, ''GET / HTTP/1.1'' @ CRLF @ ''Content-Length: abc'' @ CRLF @ CRLF)"
  by (simp add: read_request_Incoming)

text \<open>
  Claim C7. A request is routed to the handler stored under exactly its path, called on
  a new response. A request whose path is not a key of the route table gets status 404,
  message \<open>Not Found\<close> and the fixed page as body, and that response is what the
  connection sends before it closes. With one route registered on a new server, every
  other path is unresolved: nothing is normalised, stripped or matched by prefix. The
  witness registers \<open>/foo\<close> and requests \<open>/foo/\<close> and \<open>/foo?q=x\<close>.
\<close>
theorem route_request_exact_match:
  "(\<forall>h. rts (path request) = Some h \<longrightarrow>
        route_request rts fs request = h fs request HTTPResponse_new)
   \<and> (rts (path request) = None \<longrightarrow>
        (\<exists>res. route_request rts fs request = Inr res
           \<and> version res = ''HTTP/1.1'' \<and> status_code res = 404
           \<and> status_message res = ''Not Found'' \<and> body res = not_found_html
           \<and> (\<forall>n s. read_request inp = (n, s) \<and> 0 < n \<and> parse s HTTPRequest_new = Inr request
                 \<longrightarrow> handle_connection iter rts c inp fs
                     = ([Send c (toString iter res), CloseSocket c], None))))
   \<and> (\<forall>p. p \<noteq> registered \<longrightarrow> routes (addRoute registered h0 (WebServer_new prt)) p = None)
   \<and> routes (addRoute registered h0 (WebServer_new prt)) registered = Some h0"
proof (intro conjI allI impI)
  fix h
  assume "rts (path request) = Some h"
  then show "route_request rts fs request = h fs request HTTPResponse_new"
    by (rule route_request_resolved)
next
  let ?res = "setContent not_found_html ''text/html''
            (HTTPResponse_new\<lparr>status_code := 404, status_message := ''Not Found''\<rparr>)"
  assume "rts (path request) = None"
  then have r: "route_request rts fs request = Inr ?res"
    by (rule route_request_unresolved)
  have f: "version ?res = ''HTTP/1.1''" "status_code ?res = 404"
    "status_message ?res = ''Not Found''" "body ?res = not_found_html"
    by (simp_all add: setContent_fields HTTPResponse_new_def)
  have "\<forall>n s. read_request inp = (n, s) \<and> 0 < n \<and> parse s HTTPRequest_new = Inr request
                 \<longrightarrow> handle_connection iter rts c inp fs
                     = ([Send c (toString iter ?res), CloseSocket c], None)"
    using handle_connection_routed [OF _ _ _ r] by blast
  with r f show "\<exists>res. route_request rts fs request = Inr res
           \<and> version res = ''HTTP/1.1'' \<and> status_code res = 404
           \<and> status_message res = ''Not Found'' \<and> body res = not_found_html
           \<and> (\<forall>n s. read_request inp = (n, s) \<and> 0 < n \<and> parse s HTTPRequest_new = Inr request
                 \<longrightarrow> handle_connection iter rts c inp fs
                     = ([Send c (toString iter res), CloseSocket c], None))"
    by (intro exI [of _ ?res] conjI)
next
  fix p
  assume "p \<noteq> registered"
  then show "routes (addRoute registered h0 (WebServer_new prt)) p = None"
    by (simp add: addRoute_def WebServer_new_def)
next
  show "routes (addRoute registered h0 (WebServer_new prt)) registered = Some h0"
    by (simp add: addRoute_def)
qed

theorem route_request_exact_match_witness:
  "routes (addRoute ''/foo'' (\<lambda>fs req res. Inr res) (WebServer_new 8080)) ''/foo/'' = None
   \<and> routes (addRoute ''/foo'' (\<lambda>fs req res. Inr res) (WebServer_new 8080)) ''/foo?q=x'' = None
   \<and> route_request (routes (addRoute ''/foo'' (\<lambda>fs req res. Inr res) (WebServer_new 8080)))
          Map.empty
          \<lparr>method = ''GET'', path = ''/foo'', version = ''HTTP/1.1'', headers = Map.empty, body = []\<rparr>
        = Inr HTTPResponse_new
   \<and> handle_connection (\<lambda>m. [(''Content-Type'', ''text/html''), (''Content-Length'', ''48'')])
          (routes (addRoute ''/foo'' (\<lambda>fs req res. Inr res) (WebServer_new 8080))) 4
          (Incoming (''GET /foo/ HTTP/1.1'' @ CRLF @ CRLF)) Map.empty
        = ([Send 4 (''HTTP/1.1 404 Not Found'' @ CRLF @ ''Content-Type: text/html'' @ CRLF
                    @ ''Content-Length: 48'' @ CRLF @ CRLF
                    @ ''<html><body><h1>404 Not Found</h1></body></html>''),
            CloseSocket 4], None)"
proof -
  let ?srv = "addRoute ''/foo'' (\<lambda>fs req res. Inr res) (WebServer_new 8080)"
  let ?req = "\<lparr>method = ''GET'', path = ''/foo/'', version = ''HTTP/1.1'',
               headers = Map.empty, body = []\<rparr>"
  let ?iter = "\<lambda>m :: string \<rightharpoonup> string. [(''Content-Type'', ''text/html''), (''Content-Length'', ''48'')]"
  note t = route_request_exact_match
    [of "routes ?srv" ?req Map.empty "Incoming (''GET /foo/ HTTP/1.1'' @ CRLF @ CRLF)"
        ?iter 4 "''/foo''" "\<lambda>fs req res. Inr res" 8080]
  note u = t [THEN conjunct2, THEN conjunct2, THEN conjunct1, rule_format]
  have a: "routes ?srv ''/foo/'' = None"
    by (rule u) simp
  have b: "routes ?srv ''/foo?q=x'' = None"
    by (rule u) simp
  have a': "routes ?srv (path ?req) = None"
    using a by simp
  from t [THEN conjunct2, THEN conjunct1, rule_format, OF a']
  obtain res where r: "version res = ''HTTP/1.1''" "status_code res = 404"
    "status_message res = ''Not Found''" "body res = not_found_html"
    and hc: "\<forall>n s. read_request (Incoming (''GET /foo/ HTTP/1.1'' @ CRLF @ CRLF)) = (n, s) \<and> 0 < n
                 \<and> parse s HTTPRequest_new = Inr ?req
                 \<longrightarrow> handle_connection ?iter (routes ?srv) 4
                       (Incoming (''GET /foo/ HTTP/1.1'' @ CRLF @ CRLF)) Map.empty
                     = ([Send 4 (toString ?iter res), CloseSocket 4], None)"
    by (elim exE conjE)
  have h: "handle_connection ?iter (routes ?srv) 4
                       (Incoming (''GET /foo/ HTTP/1.1'' @ CRLF @ CRLF)) Map.empty
                     = ([Send 4 (toString ?iter res), CloseSocket 4], None)"
    by (rule hc [rule_format, of 22 "''GET /foo/ HTTP/1.1'' @ CRLF @ CRLF"])
       (simp only: read_foo parse_foo, simp)
  have s: "show_int 404 = ''404''"
    by (simp add: show_int_def to_string.simps digit_char_def)
  have ts: "toString ?iter res = ''HTTP/1.1 404 Not Found'' @ CRLF @ ''Content-Type: text/html'' @ CRLF
                    @ ''Content-Length: 48'' @ CRLF @ CRLF
                    @ ''<html><body><h1>404 Not Found</h1></body></html>''"
    unfolding toString_eq r s not_found_html_def by simp
  from h have hf: "handle_connection ?iter (routes ?srv) 4
          (Incoming (''GET /foo/ HTTP/1.1'' @ CRLF @ CRLF)) Map.empty
        = ([Send 4 (''HTTP/1.1 404 Not Found'' @ CRLF @ ''Content-Type: text/html'' @ CRLF
                    @ ''Content-Length: 48'' @ CRLF @ CRLF
                    @ ''<html><body><h1>404 Not Found</h1></body></html>''),
            CloseSocket 4], None)"
    unfolding ts .
  let ?req2 = "\<lparr>method = ''GET'', path = ''/foo'', version = ''HTTP/1.1'',
               headers = Map.empty, body = []\<rparr>"
  note t2 = route_request_exact_match
    [of "routes ?srv" ?req2 Map.empty "Incoming (''GET /foo/ HTTP/1.1'' @ CRLF @ CRLF)"
        ?iter 4 "''/foo''" "\<lambda>fs req res. Inr res" 8080]
  have g: "routes ?srv (path ?req2) = Some (\<lambda>fs req res. Inr res)"
    using t2 [THEN conjunct2, THEN conjunct2, THEN conjunct2] by simp
  have c: "route_request (routes ?srv) Map.empty ?req2 = Inr HTTPResponse_new"
    by (rule t2 [THEN conjunct1, rule_format, OF g])
  from a b c hf show ?thesis
    by (intro conjI)
qed

text \<open>
  Claim C8. The handler of a static-file route looks the file up in the file system as
  it is at the invocation. When the file cannot be opened the response gets status 404,
  message \<open>Not Found\<close> and the fixed page. When it can, the status code and message are
  left as the handler found them (200 on the new response the router passes), the body
  is the bytes of the file, \<open>Content-Length\<close> is their number and \<open>Content-Type\<close> is
  read off the suffix of the file path by the fixed table, \<open>text/plain\<close> when no
  suffix of the table matches.
\<close>
theorem static_file_handler_serves_current_file:
  "(fs file_path = None \<longrightarrow>
      (\<exists>res'. static_file_handler file_path fs req res = Inr res'
         \<and> status_code res' = 404 \<and> status_message res' = ''Not Found''
         \<and> body res' = not_found_html))
   \<and> (\<forall>bytes. fs file_path = Some bytes \<longrightarrow>
        (\<exists>res'. static_file_handler file_path fs req res = Inr res'
           \<and> status_code res' = status_code res \<and> status_message res' = status_message res
           \<and> headers res' ''Content-Type'' = Some (content_type_of file_path)
           \<and> headers res' ''Content-Length'' = Some (to_string (length bytes))
           \<and> body res' = bytes))
   \<and> status_code HTTPResponse_new = 200
   \<and> routes (addStaticFileRoute pth file_path srv) pth = Some (static_file_handler file_path)
   \<and> (suffix ''.html'' file_path \<or> suffix ''.htm'' file_path \<longrightarrow> content_type_of file_path = ''text/html'')
   \<and> (suffix ''.css'' file_path \<longrightarrow> content_type_of file_path = ''text/css'')
   \<and> (suffix ''.js'' file_path \<longrightarrow> content_type_of file_path = ''application/javascript'')
   \<and> (suffix ''.json'' file_path \<longrightarrow> content_type_of file_path = ''application/json'')
   \<and> (suffix ''.png'' file_path \<longrightarrow> content_type_of file_path = ''image/png'')
   \<and> (suffix ''.jpg'' file_path \<or> suffix ''.jpeg'' file_path \<longrightarrow> content_type_of file_path = ''image/jpeg'')
   \<and> (suffix ''.gif'' file_path \<longrightarrow> content_type_of file_path = ''image/gif'')
   \<and> (\<not> suffix ''.html'' file_path \<and> \<not> suffix ''.htm'' file_path \<and> \<not> suffix ''.css'' file_path
        \<and> \<not> suffix ''.js'' file_path \<and> \<not> suffix ''.json'' file_path \<and> \<not> suffix ''.png'' file_path
        \<and> \<not> suffix ''.jpg'' file_path \<and> \<not> suffix ''.jpeg'' file_path \<and> \<not> suffix ''.gif'' file_path
      \<longrightarrow> content_type_of file_path = ''text/plain'')"
proof -
  have a: "fs file_path = None \<longrightarrow>
      (\<exists>res'. static_file_handler file_path fs req res = Inr res'
         \<and> status_code res' = 404 \<and> status_message res' = ''Not Found''
         \<and> body res' = not_found_html)"
    by (simp add: static_file_handler_def setContent_fields)
  have b: "\<forall>bytes. fs file_path = Some bytes \<longrightarrow>
        (\<exists>res'. static_file_handler file_path fs req res = Inr res'
           \<and> status_code res' = status_code res \<and> status_message res' = status_message res
           \<and> headers res' ''Content-Type'' = Some (content_type_of file_path)
           \<and> headers res' ''Content-Length'' = Some (to_string (length bytes))
           \<and> body res' = bytes)"
    by (simp add: static_file_handler_def setContent_fields)
  have c: "status_code HTTPResponse_new = 200"
    by (simp add: HTTPResponse_new_def)
  have d: "routes (addStaticFileRoute pth file_path srv) pth = Some (static_file_handler file_path)"
    by (simp add: addStaticFileRoute_def)
  from a b c d content_type_table [of file_path] show ?thesis
    by (intro conjI) (elim conjE, assumption)+
qed

theorem static_file_handler_serves_current_file_witness:
  "(\<exists>res'. static_file_handler ''data.json'' Map.empty HTTPRequest_new HTTPResponse_new = Inr res'
         \<and> status_code res' = 404 \<and> status_message res' = ''Not Found''
         \<and> body res' = not_found_html)
   \<and> (\<exists>res'. static_file_handler ''data.json'' [''data.json'' \<mapsto> ''{}''] HTTPRequest_new
               HTTPResponse_new = Inr res'
         \<and> status_code res' = 200
         \<and> headers res' ''Content-Type'' = Some ''application/json''
         \<and> body res' = ''{}'')
   \<and> content_type_of ''index.html'' = ''text/html''
   \<and> content_type_of ''page.htm'' = ''text/html''
   \<and> content_type_of ''site.css'' = ''text/css''
   \<and> content_type_of ''app.js'' = ''application/javascript''
   \<and> content_type_of ''logo.png'' = ''image/png''
   \<and> content_type_of ''photo.jpg'' = ''image/jpeg''
   \<and> content_type_of ''photo.jpeg'' = ''image/jpeg''
   \<and> content_type_of ''anim.gif'' = ''image/gif''
   \<and> content_type_of ''README'' = ''text/plain''"
proof -
  note t1 = static_file_handler_serves_current_file
    [of Map.empty "''data.json''" HTTPRequest_new HTTPResponse_new "''/data''" "WebServer_new 8080"]
  note t2 = static_file_handler_serves_current_file
    [of "[''data.json'' \<mapsto> ''{}'']" "''data.json''" HTTPRequest_new HTTPResponse_new
        "''/data''" "WebServer_new 8080"]
  have m: "(Map.empty :: filesystem) ''data.json'' = None"
    by simp
  have 1: "\<exists>res'. static_file_handler ''data.json'' Map.empty HTTPRequest_new HTTPResponse_new = Inr res'
         \<and> status_code res' = 404 \<and> status_message res' = ''Not Found''
         \<and> body res' = not_found_html"
    by (rule t1 [THEN conjunct1, rule_format, OF m])
  have p: "[''data.json'' \<mapsto> ''{}''] ''data.json'' = Some ''{}''"
    by simp
  from t2 [THEN conjunct2, THEN conjunct1, rule_format, OF p]
  obtain res' where r: "static_file_handler ''data.json'' [''data.json'' \<mapsto> ''{}''] HTTPRequest_new
               HTTPResponse_new = Inr res'"
    "status_code res' = status_code HTTPResponse_new"
    "headers res' ''Content-Type'' = Some (content_type_of ''data.json'')"
    "body res' = ''{}''"
    by (elim exE conjE)
  have s: "suffix ''.json'' ''data.json''"
    by (simp add: suffix_to_prefix)
  from t2 have "suffix ''.json'' ''data.json'' \<longrightarrow> content_type_of ''data.json'' = ''application/json''"
    by (elim conjE)
  with s have ct: "content_type_of ''data.json'' = ''application/json''"
    by (rule rev_mp)
  from t2 have "status_code HTTPResponse_new = 200"
    by (elim conjE)
  with r ct have "static_file_handler ''data.json'' [''data.json'' \<mapsto> ''{}''] HTTPRequest_new
               HTTPResponse_new = Inr res'
         \<and> status_code res' = 200
         \<and> headers res' ''Content-Type'' = Some ''application/json''
         \<and> body res' = ''{}''"
    by simp
  then have 2: "\<exists>res'. static_file_handler ''data.json'' [''data.json'' \<mapsto> ''{}''] HTTPRequest_new
               HTTPResponse_new = Inr res'
         \<and> status_code res' = 200
         \<and> headers res' ''Content-Type'' = Some ''application/json''
         \<and> body res' = ''{}''"
    by (rule exI [of _ res'])
  have ct0: "content_type_of ''index.html'' = ''text/html''"
  proof -
    have "suffix ''.html'' ''index.html'' \<or> suffix ''.htm'' ''index.html''"
      by (simp add: suffix_to_prefix)
    moreover from static_file_handler_serves_current_file
      [of Map.empty "''index.html''" HTTPRequest_new HTTPResponse_new "''/''" "WebServer_new 8080"]
    have "suffix ''.html'' ''index.html'' \<or> suffix ''.htm'' ''index.html''
        \<longrightarrow> content_type_of ''index.html'' = ''text/html''"
      by (elim conjE)
    ultimately show ?thesis
      by (rule rev_mp)
  qed
  have ct1: "content_type_of ''page.htm'' = ''text/html''"
  proof -
    have "suffix ''.html'' ''page.htm'' \<or> suffix ''.htm'' ''page.htm''"
      by (simp add: suffix_to_prefix)
    moreover from static_file_handler_serves_current_file
      [of Map.empty "''page.htm''" HTTPRequest_new HTTPResponse_new "''/''" "WebServer_new 8080"]
    have "suffix ''.html'' ''page.htm'' \<or> suffix ''.htm'' ''page.htm''
        \<longrightarrow> content_type_of ''page.htm'' = ''text/html''"
      by (elim conjE)
    ultimately show ?thesis
      by (rule rev_mp)
  qed
  have ct2: "content_type_of ''site.css'' = ''text/css''"
  proof -
    have "suffix ''.css'' ''site.css''"
      by (simp add: suffix_to_prefix)
    moreover from static_file_handler_serves_current_file
      [of Map.empty "''site.css''" HTTPRequest_new HTTPResponse_new "''/''" "WebServer_new 8080"]
    have "suffix ''.css'' ''site.css''
        \<longrightarrow> content_type_of ''site.css'' = ''text/css''"
      by (elim conjE)
    ultimately show ?thesis
      by (rule rev_mp)
  qed
  have ct3: "content_type_of ''app.js'' = ''application/javascript''"
  proof -
    have "suffix ''.js'' ''app.js''"
      by (simp add: suffix_to_prefix)
    moreover from static_file_handler_serves_current_file
      [of Map.empty "''app.js''" HTTPRequest_new HTTPResponse_new "''/''" "WebServer_new 8080"]
    have "suffix ''.js'' ''app.js''
        \<longrightarrow> content_type_of ''app.js'' = ''application/javascript''"
      by (elim conjE)
    ultimately show ?thesis
      by (rule rev_mp)
  qed
  have ct4: "content_type_of ''logo.png'' = ''image/png''"
  proof -
    have "suffix ''.png'' ''logo.png''"
      by (simp add: suffix_to_prefix)
    moreover from static_file_handler_serves_current_file
      [of Map.empty "''logo.png''" HTTPRequest_new HTTPResponse_new "''/''" "WebServer_new 8080"]
    have "suffix ''.png'' ''logo.png''
        \<longrightarrow> content_type_of ''logo.png'' = ''image/png''"
      by (elim conjE)
    ultimately show ?thesis
      by (rule rev_mp)
  qed
  have ct5: "content_type_of ''photo.jpg'' = ''image/jpeg''"
  proof -
    have "suffix ''.jpg'' ''photo.jpg'' \<or> suffix ''.jpeg'' ''photo.jpg''"
      by (simp add: suffix_to_prefix)
    moreover from static_file_handler_serves_current_file
      [of Map.empty "''photo.jpg''" HTTPRequest_new HTTPResponse_new "''/''" "WebServer_new 8080"]
    have "suffix ''.jpg'' ''photo.jpg'' \<or> suffix ''.jpeg'' ''photo.jpg''
        \<longrightarrow> content_type_of ''photo.jpg'' = ''image/jpeg''"
      by (elim conjE)
    ultimately show ?thesis
      by (rule rev_mp)
  qed
  have ct6: "content_type_of ''photo.jpeg'' = ''image/jpeg''"
  proof -
    have "suffix ''.jpg'' ''photo.jpeg'' \<or> suffix ''.jpeg'' ''photo.jpeg''"
      by (simp add: suffix_to_prefix)
    moreover from static_file_handler_serves_current_file
      [of Map.empty "''photo.jpeg''" HTTPRequest_new HTTPResponse_new "''/''" "WebServer_new 8080"]
    have "suffix ''.jpg'' ''photo.jpeg'' \<or> suffix ''.jpeg'' ''photo.jpeg''
        \<longrightarrow> content_type_of ''photo.jpeg'' = ''image/jpeg''"
      by (elim conjE)
    ultimately show ?thesis
      by (rule rev_mp)
  qed
  have ct7: "content_type_of ''anim.gif'' = ''image/gif''"
  proof -
    have "suffix ''.gif'' ''anim.gif''"
      by (simp add: suffix_to_prefix)
    moreover from static_file_handler_serves_current_file
      [of Map.empty "''anim.gif''" HTTPRequest_new HTTPResponse_new "''/''" "WebServer_new 8080"]
    have "suffix ''.gif'' ''anim.gif''
        \<longrightarrow> content_type_of ''anim.gif'' = ''image/gif''"
      by (elim conjE)
    ultimately show ?thesis
      by (rule rev_mp)
  qed
  have ct8: "content_type_of ''README'' = ''text/plain''"
  proof -
    have "\<not> suffix ''.html'' ''README'' \<and> \<not> suffix ''.htm'' ''README'' \<and> \<not> suffix ''.css'' ''README'' \<and> \<not> suffix ''.js'' ''README'' \<and> \<not> suffix ''.json'' ''README'' \<and> \<not> suffix ''.png'' ''README'' \<and> \<not> suffix ''.jpg'' ''README'' \<and> \<not> suffix ''.jpeg'' ''README'' \<and> \<not> suffix ''.gif'' ''README''"
      by (simp add: suffix_to_prefix)
    moreover from static_file_handler_serves_current_file
      [of Map.empty "''README''" HTTPRequest_new HTTPResponse_new "''/''" "WebServer_new 8080"]
    have "\<not> suffix ''.html'' ''README'' \<and> \<not> suffix ''.htm'' ''README'' \<and> \<not> suffix ''.css'' ''README'' \<and> \<not> suffix ''.js'' ''README'' \<and> \<not> suffix ''.json'' ''README'' \<and> \<not> suffix ''.png'' ''README'' \<and> \<not> suffix ''.jpg'' ''README'' \<and> \<not> suffix ''.jpeg'' ''README'' \<and> \<not> suffix ''.gif'' ''README''
        \<longrightarrow> content_type_of ''README'' = ''text/plain''"
      by (elim conjE)
    ultimately show ?thesis
      by (rule rev_mp)
  qed
  from 1 2 ct0 ct1 ct2 ct3 ct4 ct5 ct6 ct7 ct8 show ?thesis
    by (intro conjI)
qed

text \<open>
  Claim C9, as amended. A connection is read once, for at most 8191 bytes (the buffer
  has 8192 and the call asks for one less): the request processed is the first 8191
  bytes of what the socket delivers. When the read returns zero or a negative count the
  only effect is the closing of the client socket: nothing is parsed, no handler runs and
  nothing is sent.
\<close>
theorem connection_reads_once_bounded:
  "fst (read_request inp) \<le> 8191
   \<and> (\<forall>s. read_request (Incoming s) = (int (length (take 8191 s)), take 8191 s))
   \<and> read_request RecvError = (- 1, [])
   \<and> (fst (read_request inp) \<le> 0 \<longrightarrow>
        handle_connection iter rts c inp fs = ([CloseSocket c], None))
   \<and> (\<forall>s. handle_connection iter rts c (Incoming s) fs
           = handle_connection iter rts c (Incoming (take 8191 s)) fs)"
  using read_request_bound [of inp] read_request_Incoming read_request_RecvError
    handle_connection_nothing_read [of inp iter rts c fs] handle_connection_truncates [of iter rts c _ fs]
  by blast

theorem connection_reads_once_bounded_witness:
  "fst (read_request (Incoming [])) \<le> 0
   \<and> handle_connection (\<lambda>m. []) Map.empty 4 (Incoming []) Map.empty = ([CloseSocket 4], None)
   \<and> fst (read_request RecvError) \<le> 0
   \<and> handle_connection (\<lambda>m. []) Map.empty 4 RecvError Map.empty = ([CloseSocket 4], None)
   \<and> read_request (Incoming (replicate 9000 (CHR ''a''))) = (8191, replicate 8191 (CHR ''a''))"
proof -
  note t = connection_reads_once_bounded
  have a: "fst (read_request (Incoming [])) \<le> 0"
    by (simp add: t [of "Incoming []", THEN conjunct2, THEN conjunct1, rule_format])
  have b: "fst (read_request RecvError) \<le> 0"
    by (simp add: t [of RecvError, THEN conjunct2, THEN conjunct2, THEN conjunct1])
  note h1 = t [of "Incoming []" "\<lambda>m. []" Map.empty 4 Map.empty,
      THEN conjunct2, THEN conjunct2, THEN conjunct2, THEN conjunct1, rule_format, OF a]
  note h2 = t [of RecvError "\<lambda>m. []" Map.empty 4 Map.empty,
      THEN conjunct2, THEN conjunct2, THEN conjunct2, THEN conjunct1, rule_format, OF b]
  have c: "read_request (Incoming (replicate 9000 (CHR ''a''))) = (8191, replicate 8191 (CHR ''a''))"
    by (simp add: t [of "Incoming []", THEN conjunct2, THEN conjunct1, rule_format])
  from a h1 b h2 c show ?thesis
    by (intro conjI)
qed

text \<open>
  The claim as the spec states it has 8192 bytes processed: of 8192 bytes delivered,
  8191 reach the parser.
\<close>
theorem connection_reads_8192_counterexample:
  "length (snd (read_request (Incoming (replicate 8192 (CHR ''a''))))) = 8191
   \<and> snd (read_request (Incoming (replicate 8192 (CHR ''a'')))) \<noteq> replicate 8192 (CHR ''a'')"
proof -
  have l: "length (snd (read_request (Incoming (replicate 8192 (CHR ''a''))))) = 8191"
    by (simp add: read_request_Incoming)
  have "length (replicate 8192 (CHR ''a'')) = 8192"
    by simp
  with l have "snd (read_request (Incoming (replicate 8192 (CHR ''a'')))) \<noteq> replicate 8192 (CHR ''a'')"
    by (metis numeral_eq_iff semiring_norm(88) semiring_norm(89) semiring_norm(90) num.inject)
  with l show ?thesis
    by (rule conjI)
qed

text \<open>
  Claim C3, as amended. When the request read from a connection carries a
  \<open>Content-Length\<close> value that \<open>std::stoi\<close> rejects, \<open>parse\<close> throws, nothing is
  sent on that connection, and the exception leaves the accept loop: \<open>start\<close> closes
  the listening socket and returns with that exception, whatever connections would have
  come later. The connections handled before it are not affected.
\<close>
theorem bad_content_length_ends_accept_loop:
  assumes "read_request inp = (n, s)" and "0 < n"
    and "HTTPRequest.headers (fst (parse_head s HTTPRequest_new)) ''Content-Length'' = Some v"
    and "stoi v = Inl e"
    and "accept_loop iter (routes srv) before = (effs0, None)"
  shows "parse s HTTPRequest_new = Inl e
       \<and> snd (handle_connection iter (routes srv) c inp fs) = Some e
       \<and> (\<forall>x. Send c x \<notin> set (fst (handle_connection iter (routes srv) c inp fs)))
       \<and> start iter (Listening fd) (before @ Accepted c inp fs # later) srv
           = (effs0 @ fst (handle_connection iter (routes srv) c inp fs) @ [CloseSocket fd],
              srv\<lparr>server_socket := None, running := True\<rparr>, Returned e)
       \<and> start iter (Listening fd) (before @ Accepted c inp fs # later) srv
           = start iter (Listening fd) (before @ [Accepted c inp fs]) srv"
proof -
  from assms(3,4) have p: "parse s HTTPRequest_new = Inl e"
    by (rule parse_stoi_fails)
  from assms(1,2) p have h: "handle_connection iter (routes srv) c inp fs = ([], Some e)"
    by (rule handle_connection_parse_fails)
  from assms(5) h have l: "\<And>later. accept_loop iter (routes srv) (before @ Accepted c inp fs # later)
      = (effs0 @ [], Some e)"
    by (rule accept_loop_stops)
  have st: "\<And>later. start iter (Listening fd) (before @ Accepted c inp fs # later) srv
           = (effs0 @ [] @ [CloseSocket fd], srv\<lparr>server_socket := None, running := True\<rparr>, Returned e)"
    using start_stops [OF l] by simp
  from p h st show ?thesis
    by simp
qed

theorem bad_content_length_ends_accept_loop_witness:
  "parse (''GET / HTTP/1.1'' @ CRLF @ ''Content-Length: abc'' @ CRLF @ CRLF) HTTPRequest_new
     = Inl InvalidArgument
   \<and> snd (snd (start (\<lambda>m. []) (Listening 3)
         ([AcceptFailed]
          @ Accepted 7 (Incoming (''GET / HTTP/1.1'' @ CRLF @ ''Content-Length: abc'' @ CRLF @ CRLF))
              Map.empty
          # [Accepted 8 (Incoming (''GET / HTTP/1.1'' @ CRLF @ CRLF)) Map.empty])
         (WebServer_new 8080)))
     = Returned InvalidArgument
   \<and> server_socket (fst (snd (start (\<lambda>m. []) (Listening 3)
         ([AcceptFailed]
          @ Accepted 7 (Incoming (''GET / HTTP/1.1'' @ CRLF @ ''Content-Length: abc'' @ CRLF @ CRLF))
              Map.empty
          # [Accepted 8 (Incoming (''GET / HTTP/1.1'' @ CRLF @ CRLF)) Map.empty])
         (WebServer_new 8080))))
     = None"
proof -
  have l: "accept_loop (\<lambda>m. []) (routes (WebServer_new 8080)) [AcceptFailed] = ([], None)"
    by simp
  have z: "(0::int) < 39"
    by simp
  note t = bad_content_length_ends_accept_loop
    [OF read_bad_length z head_bad_length stoi_examples(4) l, of 7 Map.empty 3
       "[Accepted 8 (Incoming (''GET / HTTP/1.1'' @ CRLF @ CRLF)) Map.empty]"]
  note st = t [THEN conjunct2, THEN conjunct2, THEN conjunct2, THEN conjunct1]
  have a: "parse (''GET / HTTP/1.1'' @ CRLF @ ''Content-Length: abc'' @ CRLF @ CRLF) HTTPRequest_new
     = Inl InvalidArgument"
    by (rule t [THEN conjunct1])
  have b: "snd (snd (start (\<lambda>m. []) (Listening 3)
         ([AcceptFailed]
          @ Accepted 7 (Incoming (''GET / HTTP/1.1'' @ CRLF @ ''Content-Length: abc'' @ CRLF @ CRLF))
              Map.empty
          # [Accepted 8 (Incoming (''GET / HTTP/1.1'' @ CRLF @ CRLF)) Map.empty])
         (WebServer_new 8080)))
     = Returned InvalidArgument"
    unfolding st by simp
  have c: "server_socket (fst (snd (start (\<lambda>m. []) (Listening 3)
         ([AcceptFailed]
          @ Accepted 7 (Incoming (''GET / HTTP/1.1'' @ CRLF @ ''Content-Length: abc'' @ CRLF @ CRLF))
              Map.empty
          # [Accepted 8 (Incoming (''GET / HTTP/1.1'' @ CRLF @ CRLF)) Map.empty])
         (WebServer_new 8080))))
     = None"
    unfolding st by simp
  from a b c show ?thesis
    by (intro conjI)
qed

text \<open>
  The claim as the spec states it has the client socket closed and the loop going on.
  With a bad request on socket 7 followed by a good one on socket 8, the only effect of
  \<open>start\<close> is the closing of the listening socket 3, and it returns.
\<close>
theorem bad_content_length_counterexample:
  "fst (start (\<lambda>m. []) (Listening 3)
         [Accepted 7 (Incoming (''GET / HTTP/1.1'' @ CRLF @ ''Content-Length: abc'' @ CRLF @ CRLF))
            Map.empty,
          Accepted 8 (Incoming (''GET / HTTP/1.1'' @ CRLF @ CRLF)) Map.empty]
         (WebServer_new 8080))
     = [CloseSocket 3]
   \<and> snd (snd (start (\<lambda>m. []) (Listening 3)
         [Accepted 7 (Incoming (''GET / HTTP/1.1'' @ CRLF @ ''Content-Length: abc'' @ CRLF @ CRLF))
            Map.empty,
          Accepted 8 (Incoming (''GET / HTTP/1.1'' @ CRLF @ CRLF)) Map.empty]
         (WebServer_new 8080)))
     = Returned InvalidArgument"
proof -
  have p: "parse (''GET / HTTP/1.1'' @ CRLF @ ''Content-Length: abc'' @ CRLF @ CRLF) HTTPRequest_new
     = Inl InvalidArgument"
    using head_bad_length stoi_examples(4) by (rule parse_stoi_fails)
  have z: "(0::int) < 39"
    by simp
  have h: "handle_connection (\<lambda>m. []) (routes (WebServer_new 8080)) 7
      (Incoming (''GET / HTTP/1.1'' @ CRLF @ ''Content-Length: abc'' @ CRLF @ CRLF)) Map.empty
     = ([], Some InvalidArgument)"
    using read_bad_length z p by (rule handle_connection_parse_fails)
  have l: "accept_loop (\<lambda>m. []) (routes (WebServer_new 8080)) [] = ([], None)"
    by simp
  have "accept_loop (\<lambda>m. []) (routes (WebServer_new 8080))
      ([] @ Accepted 7 (Incoming (''GET / HTTP/1.1'' @ CRLF @ ''Content-Length: abc'' @ CRLF @ CRLF))
            Map.empty
          # [Accepted 8 (Incoming (''GET / HTTP/1.1'' @ CRLF @ CRLF)) Map.empty])
     = ([] @ [], Some InvalidArgument)"
    using l h by (rule accept_loop_stops)
  then have "accept_loop (\<lambda>m. []) (routes (WebServer_new 8080))
      [Accepted 7 (Incoming (''GET / HTTP/1.1'' @ CRLF @ ''Content-Length: abc'' @ CRLF @ CRLF))
            Map.empty,
       Accepted 8 (Incoming (''GET / HTTP/1.1'' @ CRLF @ CRLF)) Map.empty]
     = ([], Some InvalidArgument)"
    by (simp only: append_Nil)
  then have st: "start (\<lambda>m. []) (Listening 3)
         [Accepted 7 (Incoming (''GET / HTTP/1.1'' @ CRLF @ ''Content-Length: abc'' @ CRLF @ CRLF))
            Map.empty,
          Accepted 8 (Incoming (''GET / HTTP/1.1'' @ CRLF @ CRLF)) Map.empty]
         (WebServer_new 8080)
      = ([] @ [CloseSocket 3], (WebServer_new 8080)\<lparr>server_socket := None, running := True\<rparr>,
         Returned InvalidArgument)"
    by (rule start_stops)
  show ?thesis
    unfolding st by simp
qed

end
